theory Spec2Isabelle
  imports Main
begin

section \<open>JavaScript strings\<close>

text \<open>
  Strings are lists of characters. The source only inspects ASCII letters when it
  folds case and when it matches the e-mail pattern, so the case table and the
  character classes are written out letter by letter.
\<close>

definition upperLetters :: string where
  "upperLetters = ''ABCDEFGHIJKLMNOPQRSTUVWXYZ''"

definition lowerLetters :: string where
  "lowerLetters = ''abcdefghijklmnopqrstuvwxyz''"

definition digitChars :: string where
  "digitChars = ''0123456789''"

definition toLowerCaseChar :: "char \<Rightarrow> char" where
  "toLowerCaseChar c =
     (case map_of (zip upperLetters lowerLetters) c of Some l \<Rightarrow> l | None \<Rightarrow> c)"

text \<open>\<^verbatim>\<open>s.toLowerCase()\<close>\<close>

definition toLowerCase :: "string \<Rightarrow> string" where
  "toLowerCase s = map toLowerCaseChar s"

text \<open>\<^verbatim>\<open>s.startsWith(p)\<close> and \<^verbatim>\<open>s.includes(p)\<close>\<close>

fun startsWith :: "string \<Rightarrow> string \<Rightarrow> bool" where
  "startsWith s [] = True"
| "startsWith [] (p # ps) = False"
| "startsWith (c # cs) (p # ps) = (c = p \<and> startsWith cs ps)"

fun includes_str :: "string \<Rightarrow> string \<Rightarrow> bool" where
  "includes_str [] p = (p = [])"
| "includes_str (c # cs) p = (startsWith (c # cs) p \<or> includes_str cs p)"

text \<open>\<^verbatim>\<open>s.repeat(n)\<close>\<close>

definition repeat :: "string \<Rightarrow> nat \<Rightarrow> string" where
  "repeat s n = concat (replicate n s)"

text \<open>
  String concatenation coerces a missing property: \<^verbatim>\<open>undefined + "x"\<close> is
  \<^verbatim>\<open>"undefinedx"\<close>.
\<close>

definition str_of :: "string option \<Rightarrow> string" where
  "str_of v = (case v of None \<Rightarrow> ''undefined'' | Some s \<Rightarrow> s)"

section \<open>Sensitive-value masking (content.js, ActionRecorder.maskSensitiveData)\<close>

text \<open>
  The properties of an element that masking reads. \<^verbatim>\<open>name\<close> and \<^verbatim>\<open>type\<close>
  exist on form controls only; \<^verbatim>\<open>id\<close> and \<^verbatim>\<open>className\<close> are strings on
  every element.
\<close>

record field =
  f_name :: "string option"
  f_id :: string
  f_className :: string
  f_type :: "string option"

definition sensitiveFields :: "string list" where
  "sensitiveFields = [''password'', ''credit'', ''card'', ''cvv'', ''ssn'', ''secret'']"

definition fieldName :: "field \<Rightarrow> string" where
  "fieldName element = toLowerCase (str_of (f_name element) @ f_id element @ f_className element)"

subsection \<open>The e-mail pattern\<close>

text \<open>
  \<^verbatim>\<open>/([a-zA-Z0-9._%+-]+)@([a-zA-Z0-9.-]+\.[a-zA-Z]{2,})/g\<close>

  The three character classes, then a greedy quantifier over a class with
  backtracking: the longest run is tried first, then shorter ones down to the
  minimum; the first length whose continuation matches wins.
\<close>

definition isAlpha :: "char \<Rightarrow> bool" where
  "isAlpha c = (c \<in> set (lowerLetters @ upperLetters))"

definition isLocalChar :: "char \<Rightarrow> bool" where
  "isLocalChar c = (c \<in> set (lowerLetters @ upperLetters @ digitChars @ ''._%+-''))"

definition isDomainChar :: "char \<Rightarrow> bool" where
  "isDomainChar c = (c \<in> set (lowerLetters @ upperLetters @ digitChars @ ''.-''))"

fun first_some :: "'a option list \<Rightarrow> 'a option" where
  "first_some [] = None"
| "first_some (None # xs) = first_some xs"
| "first_some (Some v # xs) = Some v"

definition greedy ::
  "(char \<Rightarrow> bool) \<Rightarrow> nat \<Rightarrow> string \<Rightarrow> (string \<Rightarrow> string \<Rightarrow> 'a option) \<Rightarrow> 'a option" where
  "greedy P k s cont =
     first_some (map (\<lambda>n. cont (take n s) (drop n s))
                     (rev [k ..< Suc (length (takeWhile P s))]))"

text \<open>
  A match of the whole pattern starting at the first character of \<open>s\<close>: the two
  groups and the text after the match.
\<close>

definition domainAfterDot :: "string \<Rightarrow> string \<Rightarrow> string \<Rightarrow> (string \<times> string \<times> string) option" where
  "domainAfterDot local x r =
     (case r of
        [] \<Rightarrow> None
      | d # r' \<Rightarrow>
          if d = CHR ''.''
          then greedy isAlpha 2 r' (\<lambda>y rest. Some (local, x @ [d] @ y, rest))
          else None)"

definition domainAfterAt :: "string \<Rightarrow> string \<Rightarrow> (string \<times> string \<times> string) option" where
  "domainAfterAt local r =
     (case r of
        [] \<Rightarrow> None
      | a # r' \<Rightarrow>
          if a = CHR ''@''
          then greedy isDomainChar 1 r' (domainAfterDot local)
          else None)"

definition emailMatchAt :: "string \<Rightarrow> (string \<times> string \<times> string) option" where
  "emailMatchAt s = greedy isLocalChar 1 s domainAfterAt"

lemma first_some_map_Some:
  "first_some (map f ns) = Some v \<Longrightarrow> \<exists>n \<in> set ns. f n = Some v"
proof (induction ns)
  case Nil
  then show ?case by simp
next
  case (Cons n ns)
  then show ?case by (cases "f n") auto
qed

lemma greedy_Some:
  "greedy P k s cont = Some v \<Longrightarrow>
   \<exists>n. k \<le> n \<and> n \<le> length s \<and> cont (take n s) (drop n s) = Some v"
proof -
  assume "greedy P k s cont = Some v"
  then obtain n where n: "n \<in> set (rev [k ..< Suc (length (takeWhile P s))])"
    and c: "cont (take n s) (drop n s) = Some v"
    unfolding greedy_def using first_some_map_Some by fastforce
  from n have "k \<le> n" and "n \<le> length (takeWhile P s)" by auto
  moreover have "length (takeWhile P s) \<le> length s" by (rule length_takeWhile_le)
  ultimately show ?thesis using c by auto
qed

lemma domainAfterDot_shorter:
  "domainAfterDot local x r = Some (l, d, rest) \<Longrightarrow> length rest < length r"
proof -
  assume a: "domainAfterDot local x r = Some (l, d, rest)"
  then obtain c r' where r: "r = c # r'"
    by (cases r) (auto simp: domainAfterDot_def)
  with a have "greedy isAlpha 2 r' (\<lambda>y rest. Some (local, x @ [c] @ y, rest)) = Some (l, d, rest)"
    by (auto simp: domainAfterDot_def split: if_splits)
  from greedy_Some [OF this] obtain n where "rest = drop n r'" by auto
  with r show ?thesis by simp
qed

lemma domainAfterAt_shorter:
  "domainAfterAt local r = Some (l, d, rest) \<Longrightarrow> length rest < length r"
proof -
  assume a: "domainAfterAt local r = Some (l, d, rest)"
  then obtain c r' where r: "r = c # r'"
    by (cases r) (auto simp: domainAfterAt_def)
  with a have "greedy isDomainChar 1 r' (domainAfterDot local) = Some (l, d, rest)"
    by (auto simp: domainAfterAt_def split: if_splits)
  from greedy_Some [OF this] obtain n
    where "domainAfterDot local (take n r') (drop n r') = Some (l, d, rest)" by auto
  from domainAfterDot_shorter [OF this] have "length rest < length (drop n r')" .
  with r show ?thesis by simp
qed

lemma emailMatchAt_shorter:
  "emailMatchAt s = Some (l, d, rest) \<Longrightarrow> length rest < length s"
proof -
  assume "emailMatchAt s = Some (l, d, rest)"
  then have "greedy isLocalChar 1 s domainAfterAt = Some (l, d, rest)"
    by (simp add: emailMatchAt_def)
  from greedy_Some [OF this] obtain n
    where "domainAfterAt (take n s) (drop n s) = Some (l, d, rest)" by auto
  from domainAfterAt_shorter [OF this] show ?thesis by simp
qed

text \<open>
  \<^verbatim>\<open>value.replace(emailRegex, (match, local, domain) => local.charAt(0) + '***@' + domain)\<close>:
  the leftmost match is replaced and the search goes on after it.
\<close>

function replaceEmails :: "string \<Rightarrow> string" where
  "replaceEmails s =
     (case emailMatchAt s of
        Some (local, domain, rest) \<Rightarrow> take 1 local @ ''***@'' @ domain @ replaceEmails rest
      | None \<Rightarrow> (case s of [] \<Rightarrow> [] | c # cs \<Rightarrow> c # replaceEmails cs))"
  by pat_completeness auto
termination
  by (relation "measure length") (auto dest: emailMatchAt_shorter)

declare replaceEmails.simps [simp del]

definition maskSensitiveData :: "string \<Rightarrow> field \<Rightarrow> string" where
  "maskSensitiveData v element =
     (if f_type element = Some ''password'' then repeat ''*'' (length v)
      else if list_ex (\<lambda>field. includes_str (fieldName element) field) sensitiveFields
      then repeat ''*'' (length v)
      else replaceEmails v)"

section \<open>Saved recordings (background.js, saveRecording)\<close>

text \<open>
  \<^verbatim>\<open>chrome.storage.local\<close> holds the list under the key \<^verbatim>\<open>recordings\<close>, or
  nothing yet. Either storage call may reject; the surrounding \<^verbatim>\<open>try/catch\<close>
  logs the error and the function returns normally.
\<close>

record 'r storage =
  recordings :: "'r list option"

record storage_outcome =
  getOk :: bool
  setOk :: bool

definition saveRecording :: "'r storage \<Rightarrow> 'r \<Rightarrow> storage_outcome \<Rightarrow> 'r storage" where
  "saveRecording st recording oc =
     (if \<not> getOk oc then st
      else
        let recs0 = (case recordings st of None \<Rightarrow> [] | Some rs \<Rightarrow> rs);
            recs1 = recording # recs0;
            recs2 = (if length recs1 > 50 then take 50 recs1 else recs1)
        in if setOk oc then st\<lparr>recordings := Some recs2\<rparr> else st)"

definition allOk :: storage_outcome where
  "allOk = \<lparr>getOk = True, setOk = True\<rparr>"

text \<open>A sequence of saves, each completing before the next starts.\<close>

fun saveAll :: "'r storage \<Rightarrow> 'r list \<Rightarrow> 'r storage" where
  "saveAll st [] = st"
| "saveAll st (r # rs) = saveAll (saveRecording st r allOk) rs"

definition getSavedRecordings :: "'r storage \<Rightarrow> 'r list" where
  "getSavedRecordings st = (case recordings st of None \<Rightarrow> [] | Some rs \<Rightarrow> rs)"

section \<open>Action records\<close>

text \<open>
  What \<^verbatim>\<open>ElementSelector.getElementInfo\<close> returns, as far as the recorder and the
  session buffer read it, and the action objects the handlers build. A property an
  object does not have is \<open>None\<close>. The handlers of content.js never set
  \<^verbatim>\<open>id\<close> or \<^verbatim>\<open>timestamp\<close>; \<^verbatim>\<open>RecordingSession.addAction\<close> adds them in
  the background page, to its own copy.
\<close>

record element_info =
  i_selector :: string
  i_tag :: string

record action =
  a_type :: string
  a_element :: "element_info option"
  a_key :: "string option"
  a_value :: "string option"
  a_inputType :: "string option"
  a_screenshot :: "string option"
  a_id :: "string option"
  a_timestamp :: "nat option"

definition new_action :: "string \<Rightarrow> element_info option \<Rightarrow> action" where
  "new_action ty el =
     \<lparr>a_type = ty, a_element = el, a_key = None, a_value = None, a_inputType = None,
      a_screenshot = None, a_id = None, a_timestamp = None\<rparr>"

section \<open>The session buffer (background.js)\<close>

record session =
  s_id :: string
  s_tabId :: nat
  s_url :: string
  s_startTime :: nat
  s_actions :: "action list"
  s_isPaused :: bool
  s_title :: string

record export =
  x_id :: string
  x_url :: string
  x_startTime :: nat
  x_endTime :: nat
  x_duration :: int
  x_actions :: "action list"
  x_title :: string

text \<open>
  \<^verbatim>\<open>new RecordingSession(tabId, url)\<close>. The constructor does not set
  \<^verbatim>\<open>isPaused\<close>; the missing property reads as falsy wherever it is tested.
\<close>

definition RecordingSession :: "nat \<Rightarrow> string \<Rightarrow> string \<Rightarrow> nat \<Rightarrow> session" where
  "RecordingSession tabId url uuid now =
     \<lparr>s_id = uuid, s_tabId = tabId, s_url = url, s_startTime = now, s_actions = [],
      s_isPaused = False, s_title = []\<rparr>"

text \<open>
  \<^verbatim>\<open>this.actions.push({ id: crypto.randomUUID(), timestamp: Date.now(), ...action })\<close>:
  the spread comes last, so a property of the incoming action wins.
\<close>

definition session_addAction :: "session \<Rightarrow> action \<Rightarrow> string \<Rightarrow> nat \<Rightarrow> session" where
  "session_addAction s act uuid now =
     s\<lparr>s_actions := s_actions s @
         [act\<lparr>a_id := (case a_id act of None \<Rightarrow> Some uuid | Some i \<Rightarrow> Some i),
              a_timestamp := (case a_timestamp act of None \<Rightarrow> Some now | Some t \<Rightarrow> Some t)\<rparr>]\<rparr>"

definition session_export :: "session \<Rightarrow> nat \<Rightarrow> export" where
  "session_export s now =
     \<lparr>x_id = s_id s, x_url = s_url s, x_startTime = s_startTime s, x_endTime = now,
      x_duration = int now - int (s_startTime s), x_actions = s_actions s, x_title = s_title s\<rparr>"

datatype message = StartRecording string | StopRecording | PauseRecording | ResumeRecording

datatype chrome_error = LastError string

text \<open>
  \<^verbatim>\<open>RecordingManager\<close>: the registry \<^verbatim>\<open>sessions\<close> is a \<^verbatim>\<open>Map\<close> keyed by tab
  id; \<open>outbox\<close> collects the messages handed to \<^verbatim>\<open>chrome.tabs.sendMessage\<close>.
\<close>

record manager =
  sessions :: "nat \<rightharpoonup> session"
  activeTab :: "nat option"
  outbox :: "(nat \<times> message) list"

record tab =
  t_url :: string
  t_title :: string

text \<open>
  \<^verbatim>\<open>startRecording(tabId)\<close> runs over several turns of the event loop, and
  other messages can be handled between them.
  \<^item> In the callback of \<^verbatim>\<open>chrome.tabs.get\<close>: on \<^verbatim>\<open>chrome.runtime.lastError\<close> the
    promise rejects; otherwise, after the two injections it awaits (a failing
    injection is caught and logged), a session is created with a fresh UUID and
    the clock reading, stored under the tab id with \<^verbatim>\<open>this.sessions.set\<close>,
    and a timer of 100 ms is set.
  \<^item> When the timer fires, the start message is sent to the tab.
  \<^item> In the callback of the message: on \<^verbatim>\<open>chrome.runtime.lastError\<close> the entry of
    the tab is deleted and the promise rejects; otherwise the promise resolves with
    the session.
  There is no test whether the tab already has a session.
\<close>

record start_env =
  e_tab :: "chrome_error + tab"
  e_uuid :: string
  e_now :: nat

definition startRecording_register ::
  "manager \<Rightarrow> nat \<Rightarrow> start_env \<Rightarrow> manager \<times> (chrome_error + session)" where
  "startRecording_register m tabId env =
     (case e_tab env of
        Inl err \<Rightarrow> (m, Inl err)
      | Inr tb \<Rightarrow>
          let session = (RecordingSession tabId (t_url tb) (e_uuid env) (e_now env))
                          \<lparr>s_title := t_title tb\<rparr>
          in (m\<lparr>sessions := (sessions m)(tabId \<mapsto> session), activeTab := Some tabId\<rparr>,
              Inr session))"

definition startRecording_send :: "manager \<Rightarrow> nat \<Rightarrow> session \<Rightarrow> manager" where
  "startRecording_send m tabId session =
     m\<lparr>outbox := outbox m @ [(tabId, StartRecording (s_id session))]\<rparr>"

definition startRecording_settle ::
  "manager \<Rightarrow> nat \<Rightarrow> session \<Rightarrow> chrome_error option \<Rightarrow> manager \<times> (chrome_error + session)" where
  "startRecording_settle m tabId session lastError =
     (case lastError of
        Some err \<Rightarrow> (m\<lparr>sessions := (sessions m)(tabId := None)\<rparr>, Inl err)
      | None \<Rightarrow> (m, Inr session))"

definition stopRecording :: "manager \<Rightarrow> nat \<Rightarrow> nat \<Rightarrow> manager \<times> export option" where
  "stopRecording m tabId now =
     (case sessions m tabId of
        None \<Rightarrow> (m, None)
      | Some session \<Rightarrow>
          (m\<lparr>outbox := outbox m @ [(tabId, StopRecording)],
             sessions := (sessions m)(tabId := None),
             activeTab := (if activeTab m = Some tabId then None else activeTab m)\<rparr>,
           Some (session_export session now)))"

definition pauseRecording :: "manager \<Rightarrow> nat \<Rightarrow> manager \<times> bool" where
  "pauseRecording m tabId =
     (case sessions m tabId of
        None \<Rightarrow> (m, False)
      | Some session \<Rightarrow>
          (m\<lparr>sessions := (sessions m)(tabId \<mapsto> session\<lparr>s_isPaused := True\<rparr>),
             outbox := outbox m @ [(tabId, PauseRecording)]\<rparr>, True))"

definition resumeRecording :: "manager \<Rightarrow> nat \<Rightarrow> manager \<times> bool" where
  "resumeRecording m tabId =
     (case sessions m tabId of
        None \<Rightarrow> (m, False)
      | Some session \<Rightarrow>
          (m\<lparr>sessions := (sessions m)(tabId \<mapsto> session\<lparr>s_isPaused := False\<rparr>),
             outbox := outbox m @ [(tabId, ResumeRecording)]\<rparr>, True))"

text \<open>\<^verbatim>\<open>RecordingManager.addAction(tabId, action)\<close>, with the UUID and the clock
  that \<^verbatim>\<open>RecordingSession.addAction\<close> reads.\<close>

definition addAction :: "manager \<Rightarrow> nat \<Rightarrow> action \<Rightarrow> string \<Rightarrow> nat \<Rightarrow> manager \<times> bool" where
  "addAction m tabId act uuid now =
     (case sessions m tabId of
        None \<Rightarrow> (m, False)
      | Some session \<Rightarrow>
          if \<not> s_isPaused session
          then (m\<lparr>sessions := (sessions m)(tabId \<mapsto> session_addAction session act uuid now)\<rparr>, True)
          else (m, False))"

definition isRecordingTab :: "manager \<Rightarrow> nat \<Rightarrow> bool" where
  "isRecordingTab m tabId = (sessions m tabId \<noteq> None)"

text \<open>The actions buffered for a tab; none when the tab has no session.\<close>

definition actionsOf :: "manager \<Rightarrow> nat \<Rightarrow> action list" where
  "actionsOf m tabId = (case sessions m tabId of None \<Rightarrow> [] | Some s \<Rightarrow> s_actions s)"

text \<open>The Recording state of a tab's session: registered and not paused.\<close>

definition inRecordingState :: "manager \<Rightarrow> nat \<Rightarrow> bool" where
  "inRecordingState m tabId = (case sessions m tabId of None \<Rightarrow> False | Some s \<Rightarrow> \<not> s_isPaused s)"

section \<open>The locator deriver (content.js, ElementSelector)\<close>

text \<open>
  The document as the deriver and the handlers see it: a tree of elements, each
  with its \<^verbatim>\<open>tagName\<close>, its \<^verbatim>\<open>id\<close> (empty when it has none), its
  \<^verbatim>\<open>data-testid\<close> and \<^verbatim>\<open>aria-label\<close> attributes, its \<^verbatim>\<open>classList\<close>, its
  \<^verbatim>\<open>name\<close> and \<^verbatim>\<open>type\<close> properties (form controls have them) and its element
  children. Two elements may look alike, so an element is referred to by where it
  is: the child positions on the way down from the root.
\<close>

datatype node =
  Elem (tagName: string) (elem_id: string) (testid: "string option") (ariaLabel: "string option")
       (classList: "string list") (e_name: "string option") (e_type: "string option")
       (children: "node list")

type_synonym path = "nat list"

fun node_at :: "node \<Rightarrow> path \<Rightarrow> node option" where
  "node_at n [] = Some n"
| "node_at n (i # p) = (if i < length (children n) then node_at (children n ! i) p else None)"

text \<open>Every element of the document, in document order.\<close>

fun all_paths :: "node \<Rightarrow> path list"
  and child_paths :: "nat \<Rightarrow> node list \<Rightarrow> path list" where
  "all_paths (Elem tg i t a cl nm ty cs) = [] # child_paths 0 cs"
| "child_paths k [] = []"
| "child_paths k (c # cs) = map ((#) k) (all_paths c) @ child_paths (Suc k) cs"

text \<open>
  The selectors the deriver builds, kept in the structure their text has:
  \<^verbatim>\<open>#id\<close>, \<^verbatim>\<open>[data-testid="v"]\<close>, \<^verbatim>\<open>[aria-label="v"]\<close>,
  \<^verbatim>\<open>tag.class1.class2\<close>, and \<^verbatim>\<open>tag\<close> or \<^verbatim>\<open>tag:nth-child(n)\<close>; a selector is
  a chain of these joined by the child combinator, root side first. \<open>render\<close>
  gives the text the source builds.
\<close>

datatype compound =
    ById string
  | ByTestId string
  | ByAriaLabel string
  | ByTagClasses string "string list"
  | ByTag string "nat option"

type_synonym selector = "compound list"

fun show_nat :: "nat \<Rightarrow> string" where
  "show_nat n = (if n < 10 then [digitChars ! n] else show_nat (n div 10) @ [digitChars ! (n mod 10)])"

declare show_nat.simps [simp del]

fun join :: "string \<Rightarrow> string list \<Rightarrow> string" where
  "join sep [] = []"
| "join sep [x] = x"
| "join sep (x # y # ys) = x @ sep @ join sep (y # ys)"

definition render_compound :: "compound \<Rightarrow> string" where
  "render_compound c =
     (case c of
        ById i \<Rightarrow> ''#'' @ i
      | ByTestId v \<Rightarrow> ''[data-testid=\"'' @ v @ ''\"]''
      | ByAriaLabel v \<Rightarrow> ''[aria-label=\"'' @ v @ ''\"]''
      | ByTagClasses tg cls \<Rightarrow> tg @ ''.'' @ join ''.'' cls
      | ByTag tg ix \<Rightarrow>
          (case ix of None \<Rightarrow> tg | Some n \<Rightarrow> tg @ '':nth-child('' @ show_nat n @ '')''))"

definition render :: "selector \<Rightarrow> string" where
  "render sel = join '' > '' (map render_compound sel)"

subsection \<open>The browser's selector engine\<close>

text \<open>
  \<^verbatim>\<open>document.querySelectorAll(text)\<close> first parses the text and raises a
  \<^verbatim>\<open>SyntaxError\<close> when it is not a selector. How the engine reads the text
  built from a name (an id, a class, a tag) is settled for two kinds of names:
  \<^item> a CSS identifier (letters, digits, \<^verbatim>\<open>_\<close> and \<^verbatim>\<open>-\<close>, not starting with a
    digit, nor with \<^verbatim>\<open>-\<close> unless a letter, \<^verbatim>\<open>_\<close> or \<^verbatim>\<open>-\<close> follows) is read
    as that name;
  \<^item> a name that consists of such characters without being an identifier
    (\<^verbatim>\<open>1abc\<close>), or in which the first other character is one of
    \<^verbatim>\<open>/ ! ? = %\<close> (\<^verbatim>\<open>w-1/2\<close>), makes the text no selector at all.
  Any other name (\<^verbatim>\<open>a.b\<close>, \<^verbatim>\<open>a[b]\<close>, \<^verbatim>\<open>sm:flex\<close>, an escape) spells selector
  syntax that is not modelled here; what the engine answers for such a text is a
  parameter, the \<open>engine\<close>.
\<close>

datatype dom_error = SyntaxError | TypeError

datatype verdict = Parses | Rejected | Unmodelled

type_synonym engine = "node \<Rightarrow> string \<Rightarrow> dom_error + path list"

definition isNameStart :: "char \<Rightarrow> bool" where
  "isNameStart c = (c \<in> set (lowerLetters @ upperLetters @ ''_''))"

definition isNameChar :: "char \<Rightarrow> bool" where
  "isNameChar c = (c \<in> set (lowerLetters @ upperLetters @ digitChars @ ''_-''))"

fun cssIdent :: "string \<Rightarrow> bool" where
  "cssIdent [] = False"
| "cssIdent (c # cs) =
     (list_all isNameChar cs
      \<and> (isNameStart c
         \<or> (c = CHR ''-'' \<and> (case cs of [] \<Rightarrow> False | d # ds \<Rightarrow> isNameStart d \<or> d = CHR ''-''))))"

definition badChars :: string where
  "badChars = ''/!?=%''"

definition nameVerdict :: "string \<Rightarrow> verdict" where
  "nameVerdict nm =
     (if cssIdent nm then Parses
      else case dropWhile isNameChar nm of
             [] \<Rightarrow> Rejected
           | c # rest \<Rightarrow> if c \<in> set badChars then Rejected else Unmodelled)"

text \<open>
  The value of an attribute selector is written between double quotes; a value
  holding a quote, a backslash or a line break is not read as written.
\<close>

definition valueVerdict :: "string \<Rightarrow> verdict" where
  "valueVerdict v =
     (if list_ex (\<lambda>c. c \<in> set [CHR ''\"'', CHR 0x5C, CHR 0x0A, CHR 0x0D, CHR 0x0C]) v
      then Unmodelled else Parses)"

definition compoundVerdicts :: "compound \<Rightarrow> verdict list" where
  "compoundVerdicts c =
     (case c of
        ById i \<Rightarrow> [nameVerdict i]
      | ByTestId v \<Rightarrow> [valueVerdict v]
      | ByAriaLabel v \<Rightarrow> [valueVerdict v]
      | ByTagClasses tg cls \<Rightarrow> nameVerdict tg # map nameVerdict cls
      | ByTag tg ix \<Rightarrow> [nameVerdict tg])"

text \<open>The text is read from the left: the first name that is not plain decides.\<close>

fun firstVerdict :: "verdict list \<Rightarrow> verdict" where
  "firstVerdict [] = Parses"
| "firstVerdict (Parses # vs) = firstVerdict vs"
| "firstVerdict (v # vs) = v"

definition selectorVerdict :: "selector \<Rightarrow> verdict" where
  "selectorVerdict sel =
     (if sel = [] then Rejected else firstVerdict (concat (map compoundVerdicts sel)))"

text \<open>
  Selector matching as the browser does it for these forms. An element with \<open>idx\<close>
  element siblings before it is the \<open>(idx + 1)\<close>-th child. Tag names of HTML
  elements are compared in lower case. A chain matches an element when its last
  part matches the element, the part before matches the parent, and so on.
\<close>

definition matches_compound :: "node \<Rightarrow> nat \<Rightarrow> compound \<Rightarrow> bool" where
  "matches_compound n idx c =
     (case c of
        ById i \<Rightarrow> elem_id n = i
      | ByTestId v \<Rightarrow> testid n = Some v
      | ByAriaLabel v \<Rightarrow> ariaLabel n = Some v
      | ByTagClasses tg cls \<Rightarrow> toLowerCase (tagName n) = tg \<and> list_all (\<lambda>c. c \<in> set (classList n)) cls
      | ByTag tg ix \<Rightarrow>
          toLowerCase (tagName n) = tg \<and> (case ix of None \<Rightarrow> True | Some k \<Rightarrow> k = Suc idx))"

definition sibling_index :: "path \<Rightarrow> nat" where
  "sibling_index p = (if p = [] then 0 else last p)"

fun matches_up :: "node \<Rightarrow> path \<Rightarrow> compound list \<Rightarrow> bool" where
  "matches_up doc p [] = True"
| "matches_up doc p (c # cs) =
     (case node_at doc p of
        None \<Rightarrow> False
      | Some n \<Rightarrow>
          matches_compound n (sibling_index p) c
          \<and> (cs = [] \<or> (p \<noteq> [] \<and> matches_up doc (butlast p) cs)))"

definition matches :: "node \<Rightarrow> path \<Rightarrow> selector \<Rightarrow> bool" where
  "matches doc p sel = (sel \<noteq> [] \<and> matches_up doc p (rev sel))"

text \<open>The elements a selector that is read as built matches, in document order.\<close>

definition matching :: "node \<Rightarrow> selector \<Rightarrow> path list" where
  "matching doc sel = filter (\<lambda>p. matches doc p sel) (all_paths doc)"

definition querySelectorAll :: "engine \<Rightarrow> node \<Rightarrow> selector \<Rightarrow> dom_error + path list" where
  "querySelectorAll eng doc sel =
     (case selectorVerdict sel of
        Parses \<Rightarrow> Inr (matching doc sel)
      | Rejected \<Rightarrow> Inl SyntaxError
      | Unmodelled \<Rightarrow> eng doc (render sel))"


subsection \<open>getPathSelector and getSelector\<close>

text \<open>
  \<^verbatim>\<open>Array.from(current.parentNode?.children || []).length\<close>: the root element is
  the only element child of the document node.
\<close>

definition siblingCount :: "node \<Rightarrow> path \<Rightarrow> nat" where
  "siblingCount doc p =
     (if p = [] then 1
      else case node_at doc (butlast p) of None \<Rightarrow> 0 | Some parent \<Rightarrow> length (children parent))"

text \<open>
  The loop of \<^verbatim>\<open>getPathSelector\<close>: \<open>p\<close> is \<^verbatim>\<open>current\<close>, \<open>path\<close> the array
  built so far (\<^verbatim>\<open>unshift\<close> adds at the front). The walk ends at an element with
  an id or above the root element.
\<close>

function walkUp :: "node \<Rightarrow> path \<Rightarrow> compound list \<Rightarrow> compound list" where
  "walkUp doc p path =
     (case node_at doc p of
        None \<Rightarrow> path
      | Some current \<Rightarrow>
          if elem_id current \<noteq> [] then ById (elem_id current) # path
          else let selector = ByTag (toLowerCase (tagName current))
                                (if siblingCount doc p > 1 then Some (sibling_index p + 1) else None)
               in if p = [] then selector # path
                  else walkUp doc (butlast p) (selector # path))"
  by pat_completeness auto
termination
  by (relation "measure (\<lambda>(doc, p, path). length p)") auto

declare walkUp.simps [simp del]


definition getPathSelector :: "node \<Rightarrow> path \<Rightarrow> selector" where
  "getPathSelector doc p = walkUp doc p []"

text \<open>
  \<^verbatim>\<open>getSelector(element)\<close> for the element \<open>element\<close> found at \<open>p\<close> in the
  document. The call of \<^verbatim>\<open>document.querySelectorAll\<close> is not guarded: when it
  raises, \<^verbatim>\<open>getSelector\<close> raises.
\<close>

definition transient :: "string \<Rightarrow> bool" where
  "transient c = (includes_str c ''hover'' \<or> includes_str c ''active'' \<or> includes_str c ''focus'')"

definition stableClasses :: "node \<Rightarrow> string list" where
  "stableClasses n = filter (\<lambda>c. \<not> transient c) (classList n)"

definition truthy :: "string option \<Rightarrow> bool" where
  "truthy v = (case v of None \<Rightarrow> False | Some s \<Rightarrow> s \<noteq> [])"

definition classSelector :: "node \<Rightarrow> selector" where
  "classSelector n = [ByTagClasses (toLowerCase (tagName n)) (stableClasses n)]"

definition getSelector :: "engine \<Rightarrow> node \<Rightarrow> path \<Rightarrow> node \<Rightarrow> dom_error + selector" where
  "getSelector eng doc p element =
     (if elem_id element \<noteq> [] then Inr [ById (elem_id element)]
      else if truthy (testid element) then Inr [ByTestId (the (testid element))]
      else if truthy (ariaLabel element) then Inr [ByAriaLabel (the (ariaLabel element))]
      else if join ''.'' (stableClasses element) \<noteq> []
      then (case querySelectorAll eng doc (classSelector element) of
              Inl err \<Rightarrow> Inl err
            | Inr ms \<Rightarrow> if length ms = 1 then Inr (classSelector element)
                        else Inr (getPathSelector doc p))
      else Inr (getPathSelector doc p))"

text \<open>
  \<^verbatim>\<open>getElementInfo(element)\<close>, as far as the recorder and the session buffer read
  its result: it raises when \<^verbatim>\<open>getSelector\<close> does.
\<close>

definition getElementInfo :: "engine \<Rightarrow> node \<Rightarrow> path \<Rightarrow> node \<Rightarrow> dom_error + element_info" where
  "getElementInfo eng doc p element =
     (case getSelector eng doc p element of
        Inl err \<Rightarrow> Inl err
      | Inr sel \<Rightarrow> Inr \<lparr>i_selector = render sel, i_tag = tagName element\<rparr>)"

section \<open>The recorder in the page (content.js, ActionRecorder)\<close>

text \<open>
  The recorder object together with the part of the page it uses: the document,
  the current \<^verbatim>\<open>value\<close> property of each element (absent on elements that are
  not form controls), the browser's selector engine, the pending
  \<^verbatim>\<open>setTimeout\<close> callbacks of \<^verbatim>\<open>handleInput\<close> in creation order (timer id,
  due time, element of the closure), the actions handed to \<^verbatim>\<open>recordAction\<close>
  that still await stabilization and the screenshot (\<open>pending\<close>), and the
  \<^verbatim>\<open>recordAction\<close> messages sent to the background page (\<open>sent\<close>). An element is
  referred to by its place in the document.
\<close>

type_synonym element = path

record recorder =
  isRecording :: bool
  isPaused :: bool
  sessionId :: "string option"
  lastAction :: "action option"
  inputBuffer :: "element \<rightharpoonup> nat"
  attached :: bool
  timers :: "(nat \<times> nat \<times> element) list"
  nextTimer :: nat
  pending :: "action list"
  sent :: "action list"
  document :: node
  elemValue :: "element \<Rightarrow> string option"
  browser :: engine

definition start :: "recorder \<Rightarrow> string \<Rightarrow> recorder" where
  "start r sid =
     (if isRecording r then r
      else r\<lparr>isRecording := True, sessionId := Some sid, attached := True\<rparr>)"

definition stop :: "recorder \<Rightarrow> recorder" where
  "stop r =
     (if \<not> isRecording r then r
      else r\<lparr>isRecording := False, sessionId := None, attached := False,
             inputBuffer := Map.empty\<rparr>)"

definition pause :: "recorder \<Rightarrow> recorder" where
  "pause r = r\<lparr>isPaused := True\<rparr>"

definition resume :: "recorder \<Rightarrow> recorder" where
  "resume r = r\<lparr>isPaused := False\<rparr>"

text \<open>
  The properties of an element that masking reads; \<^verbatim>\<open>className\<close> is the class
  attribute, the class names separated by blanks.
\<close>

definition field_of :: "node \<Rightarrow> field" where
  "field_of n =
     \<lparr>f_name = e_name n, f_id = elem_id n, f_className = join '' '' (classList n),
      f_type = e_type n\<rparr>"

text \<open>
  \<^verbatim>\<open>element.closest('#demo-recorder-overlay')\<close> finds the element itself or an
  ancestor with that id.
\<close>

definition closestOverlay :: "node \<Rightarrow> path \<Rightarrow> bool" where
  "closestOverlay doc p =
     list_ex (\<lambda>k. case node_at doc (take k p) of
                     None \<Rightarrow> False
                   | Some n \<Rightarrow> elem_id n = ''demo-recorder-overlay'')
             [0 ..< Suc (length p)]"

definition ignoreTags :: "string list" where
  "ignoreTags = [''HTML'', ''HEAD'', ''META'', ''TITLE'', ''SCRIPT'', ''STYLE'', ''LINK'']"

definition shouldIgnoreElement :: "node \<Rightarrow> path \<Rightarrow> node \<Rightarrow> bool" where
  "shouldIgnoreElement doc p element =
     (if closestOverlay doc p then True
      else if e_type element = Some ''password'' then False
      else if tagName element \<in> set ignoreTags then True
      else False)"

text \<open>
  \<^verbatim>\<open>recordAction(action)\<close> suspends at once in \<^verbatim>\<open>waitForPageStabilization\<close>;
  its tail runs later, when the wait and the screenshot request have completed:
  the message is sent and \<^verbatim>\<open>lastAction\<close> is set. \<open>recordAction_finish r k shot\<close>
  is that tail for the \<open>k\<close>-th action in flight.
\<close>

definition recordAction :: "recorder \<Rightarrow> action \<Rightarrow> recorder" where
  "recordAction r act = r\<lparr>pending := pending r @ [act]\<rparr>"

definition recordAction_finish :: "recorder \<Rightarrow> nat \<Rightarrow> string option \<Rightarrow> recorder" where
  "recordAction_finish r k shot =
     (if k < length (pending r)
      then let act = (pending r ! k)\<lparr>a_screenshot := shot\<rparr>
           in r\<lparr>pending := take k (pending r) @ drop (Suc k) (pending r),
                sent := sent r @ [act],
                lastAction := Some act\<rparr>
      else r)"

text \<open>
  \<^verbatim>\<open>isDuplicateAction(action)\<close> at clock reading \<open>now\<close>.
  \<^verbatim>\<open>this.lastAction.timestamp || 0\<close> is 0 when the property is missing;
  \<^verbatim>\<open>JSON.stringify\<close> is one-to-one on strings and maps a missing selector to
  \<^verbatim>\<open>undefined\<close>.
\<close>

definition isDuplicateAction :: "recorder \<Rightarrow> action \<Rightarrow> nat \<Rightarrow> bool" where
  "isDuplicateAction r act now =
     (case lastAction r of
        None \<Rightarrow> False
      | Some la \<Rightarrow>
          let timeDiff = int now - int (case a_timestamp la of None \<Rightarrow> 0 | Some t \<Rightarrow> t)
          in if timeDiff < 100
             then a_type act = a_type la \<and>
                  map_option i_selector (a_element act) = map_option i_selector (a_element la)
             else False)"

text \<open>
  \<^verbatim>\<open>handleKeydown\<close> for a target \<open>element\<close> found at \<open>target\<close>. Nothing catches
  what \<^verbatim>\<open>getElementInfo\<close> raises: the exception leaves the listener and no
  action is built.
\<close>

definition handleKeydown :: "recorder \<Rightarrow> nat \<Rightarrow> string \<Rightarrow> element \<Rightarrow> node \<Rightarrow> recorder" where
  "handleKeydown r now key target element =
     (if key = ''Tab'' \<or> key = ''Enter'' \<or> key = ''Escape''
      then (case getElementInfo (browser r) (document r) target element of
              Inl err \<Rightarrow> r
            | Inr info \<Rightarrow>
                let act = (new_action ''keypress'' (Some info))\<lparr>a_key := Some key\<rparr>
                in if \<not> isDuplicateAction r act now then recordAction r act else r)
      else r)"

text \<open>
  \<^verbatim>\<open>clearTimeout(id)\<close> removes the timer with that id; an id that is
  \<^verbatim>\<open>undefined\<close> or no longer pending is ignored.
\<close>

definition clearTimeout :: "recorder \<Rightarrow> nat option \<Rightarrow> recorder" where
  "clearTimeout r tid =
     (case tid of
        None \<Rightarrow> r
      | Some i \<Rightarrow> r\<lparr>timers := filter (\<lambda>(j, due, el). j \<noteq> i) (timers r)\<rparr>)"

definition handleInput :: "recorder \<Rightarrow> nat \<Rightarrow> element \<Rightarrow> node \<Rightarrow> recorder" where
  "handleInput r now el element =
     (if shouldIgnoreElement (document r) el element then r
      else let r1 = clearTimeout r (inputBuffer r el);
               timeoutId = nextTimer r1;
               r2 = r1\<lparr>timers := timers r1 @ [(timeoutId, now + 500, el)],
                       nextTimer := Suc timeoutId\<rparr>
           in r2\<lparr>inputBuffer := (inputBuffer r2)(el \<mapsto> timeoutId)\<rparr>)"

text \<open>
  The callback \<^verbatim>\<open>handleInput\<close> schedules. It builds the action when it runs: first
  \<^verbatim>\<open>getElementInfo(element)\<close>, which may raise a \<^verbatim>\<open>SyntaxError\<close>, then
  \<^verbatim>\<open>maskSensitiveData(element.value, element)\<close>, which raises a \<^verbatim>\<open>TypeError\<close>
  on an element without a \<^verbatim>\<open>value\<close> property. Nothing catches either: the
  exception leaves the callback, nothing is recorded and the buffer entry stays.
\<close>

definition inputTimerFired :: "recorder \<Rightarrow> element \<Rightarrow> recorder" where
  "inputTimerFired r el =
     (case node_at (document r) el of
        None \<Rightarrow> r
      | Some element \<Rightarrow>
          (case getElementInfo (browser r) (document r) el element of
             Inl err \<Rightarrow> r
           | Inr info \<Rightarrow>
               (case elemValue r el of
                  None \<Rightarrow> r
                | Some v \<Rightarrow>
                    let act = (new_action ''input'' (Some info))
                                \<lparr>a_value := Some (maskSensitiveData v (field_of element)),
                                 a_inputType := Some (case e_type element of
                                                        None \<Rightarrow> ''text''
                                                      | Some ty \<Rightarrow> if ty = [] then ''text'' else ty)\<rparr>;
                        r1 = recordAction r act
                    in r1\<lparr>inputBuffer := (inputBuffer r1)(el := None)\<rparr>)))"

text \<open>
  The event loop runs every timer that is due at \<open>now\<close>, earliest due time first,
  timers with the same due time in creation order.
\<close>

definition dueTime :: "nat \<times> nat \<times> element \<Rightarrow> nat" where
  "dueTime tm = fst (snd tm)"

definition nextDue :: "nat \<Rightarrow> (nat \<times> nat \<times> element) list \<Rightarrow> (nat \<times> nat \<times> element) option" where
  "nextDue now ts =
     (case filter (\<lambda>tm. dueTime tm \<le> now) ts of
        [] \<Rightarrow> None
      | tm # rest \<Rightarrow> Some (fold (\<lambda>x best. if dueTime x < dueTime best then x else best) rest tm))"

lemma nextDue_mem: "nextDue now ts = Some tm \<Longrightarrow> tm \<in> set ts"
proof -
  have f: "fold (\<lambda>x best. if dueTime x < dueTime best then x else best) xs b \<in> set (b # xs)" for xs b
    by (induction xs arbitrary: b) auto
  assume a: "nextDue now ts = Some tm"
  then obtain b rest where fl: "filter (\<lambda>tm. dueTime tm \<le> now) ts = b # rest"
    and tm: "tm = fold (\<lambda>x best. if dueTime x < dueTime best then x else best) rest b"
    by (auto simp: nextDue_def split: list.splits)
  from f [of rest b] tm have "tm \<in> set (filter (\<lambda>tm. dueTime tm \<le> now) ts)"
    unfolding fl by simp
  then show ?thesis by simp
qed

lemma timers_inputTimerFired: "timers (inputTimerFired r el) = timers r"
  by (simp add: inputTimerFired_def recordAction_def Let_def split: option.splits sum.splits)

function runTimers :: "nat \<Rightarrow> recorder \<Rightarrow> recorder" where
  "runTimers now r =
     (case nextDue now (timers r) of
        None \<Rightarrow> r
      | Some tm \<Rightarrow>
          runTimers now
            (inputTimerFired (r\<lparr>timers := filter (\<lambda>x. fst x \<noteq> fst tm) (timers r)\<rparr>)
               (snd (snd tm))))"
  by pat_completeness auto
termination
proof (relation "measure (\<lambda>(now, r). length (timers r))")
  show "wf (measure (\<lambda>(now, r). length (timers r)))" by simp
next
  fix now :: nat and r :: recorder and tm :: "nat \<times> nat \<times> element"
  assume "nextDue now (timers r) = Some tm"
  then have "tm \<in> set (timers r)" by (rule nextDue_mem)
  then have "length (filter (\<lambda>x. fst x \<noteq> fst tm) (timers r)) < length (timers r)"
    by (intro length_filter_less [of tm]) auto
  then show "((now, inputTimerFired (r\<lparr>timers := filter (\<lambda>x. fst x \<noteq> fst tm) (timers r)\<rparr>)
               (snd (snd tm))), now, r) \<in> measure (\<lambda>(now, r). length (timers r))"
    by (simp add: timers_inputTimerFired)
qed

declare runTimers.simps [simp del]

text \<open>
  What happens in the page, each with the clock reading at which it happens: the
  user edits an element of the document and an \<^verbatim>\<open>input\<close> event is dispatched
  (the event carries what \<^verbatim>\<open>element.value\<close> reads after the edit: a string on a
  form control, nothing on an editable element without that property), a key goes
  down on an element of the document, the tail of the \<open>k\<close>-th \<^verbatim>\<open>recordAction\<close>
  in flight runs with the screenshot it got, or a control message arrives from the
  background page. A listener runs its handler only under the condition
  \<^verbatim>\<open>!this.isPaused && this.isRecording\<close>, and only while it is attached.
\<close>

datatype event =
    InputEv element "string option"
  | KeydownEv string element
  | Finished nat "string option"
  | Control message

definition userTyped :: "recorder \<Rightarrow> element \<Rightarrow> string option \<Rightarrow> recorder" where
  "userTyped r el v = r\<lparr>elemValue := (elemValue r)(el := v)\<rparr>"

definition listening :: "recorder \<Rightarrow> bool" where
  "listening r = (attached r \<and> \<not> isPaused r \<and> isRecording r)"

definition step :: "recorder \<Rightarrow> nat \<Rightarrow> event \<Rightarrow> recorder" where
  "step r now ev =
     (case ev of
        InputEv el v \<Rightarrow>
          (case node_at (document r) el of
             None \<Rightarrow> r
           | Some element \<Rightarrow>
               let r1 = userTyped r el v
               in if listening r1 then handleInput r1 now el element else r1)
      | KeydownEv key target \<Rightarrow>
          (case node_at (document r) target of
             None \<Rightarrow> r
           | Some element \<Rightarrow>
               if listening r then handleKeydown r now key target element else r)
      | Finished k shot \<Rightarrow> recordAction_finish r k shot
      | Control (StartRecording sid) \<Rightarrow> start r sid
      | Control StopRecording \<Rightarrow> stop r
      | Control PauseRecording \<Rightarrow> pause r
      | Control ResumeRecording \<Rightarrow> resume r)"

text \<open>Before an event at time \<open>t\<close> is handled, the timers due by \<open>t\<close> have run.\<close>

fun run :: "recorder \<Rightarrow> (nat \<times> event) list \<Rightarrow> recorder" where
  "run r [] = r"
| "run r ((t, ev) # evs) = run (step (runTimers t r) t ev) evs"

text \<open>
  A burst of edits of one form control, as (time, value after the edit): times do
  not go back and each edit comes less than 500 ms after the one before.
\<close>

fun burst_ok :: "(nat \<times> string) list \<Rightarrow> bool" where
  "burst_ok [] = True"
| "burst_ok [x] = True"
| "burst_ok ((t1, v1) # (t2, v2) # rest) = (t1 \<le> t2 \<and> t2 < t1 + 500 \<and> burst_ok ((t2, v2) # rest))"

definition inputEvents :: "element \<Rightarrow> (nat \<times> string) list \<Rightarrow> (nat \<times> event) list" where
  "inputEvents el tvs = map (\<lambda>(t, v). (t, InputEv el (Some v))) tvs"

text \<open>
  The recorder is listening, the element is in the document and not filtered out,
  and the only pending timer is the one \<^verbatim>\<open>inputBuffer\<close> holds for the element,
  due at \<open>d\<close>.
\<close>

definition armed :: "recorder \<Rightarrow> element \<Rightarrow> nat \<Rightarrow> bool" where
  "armed r el d =
     (listening r
      \<and> (case node_at (document r) el of
            None \<Rightarrow> False
          | Some element \<Rightarrow> \<not> shouldIgnoreElement (document r) el element)
      \<and> (case inputBuffer r el of
            None \<Rightarrow> False
          | Some i \<Rightarrow> timers r = [(i, d, el)]))"

text \<open>No action in flight and no last action carries a timestamp.\<close>

definition no_timestamps :: "recorder \<Rightarrow> bool" where
  "no_timestamps r =
     (list_all (\<lambda>a. a_timestamp a = None) (pending r)
      \<and> (case lastAction r of None \<Rightarrow> True | Some la \<Rightarrow> a_timestamp la = None))"

section \<open>DOM-quiescence wait (content.js, ActionRecorder.waitForDOMStability)\<close>

text \<open>
  The closure of one call: the due time of the timer \<^verbatim>\<open>timeout\<close> refers to
  while it is pending (every \<^verbatim>\<open>setTimeout\<close> of the call is preceded by
  \<^verbatim>\<open>clearTimeout(timeout)\<close>, so at most one is pending), whether the observer
  is connected, whether the animation-frame callback is still to run, and when the
  promise resolved. Clock readings are in milliseconds.
\<close>

record dom_wait =
  w_timeout :: "nat option"
  w_observing :: bool
  w_frameRequested :: bool
  w_resolvedAt :: "nat option"

definition waitForDOMStability :: "nat \<Rightarrow> dom_wait" where
  "waitForDOMStability now =
     \<lparr>w_timeout = Some (now + 1000), w_observing = False, w_frameRequested = True,
      w_resolvedAt = None\<rparr>"

text \<open>The callback \<^verbatim>\<open>done\<close>, run by a timer at time \<open>t\<close>.\<close>

definition done_cb :: "nat \<Rightarrow> dom_wait \<Rightarrow> dom_wait" where
  "done_cb t w =
     w\<lparr>w_observing := False, w_timeout := None,
       w_resolvedAt := (case w_resolvedAt w of None \<Rightarrow> Some t | Some t0 \<Rightarrow> Some t0)\<rparr>"

text \<open>
  The \<^verbatim>\<open>requestAnimationFrame\<close> callback: it connects the observer, clears the
  timer \<^verbatim>\<open>timeout\<close> refers to and starts the 200 ms silence timer. The mutation
  callback restarts the silence timer.
\<close>

definition onAnimationFrame :: "nat \<Rightarrow> dom_wait \<Rightarrow> dom_wait" where
  "onAnimationFrame t w =
     (if w_frameRequested w
      then w\<lparr>w_frameRequested := False, w_observing := True, w_timeout := Some (t + 200)\<rparr>
      else w)"

definition onMutation :: "nat \<Rightarrow> dom_wait \<Rightarrow> dom_wait" where
  "onMutation t w = (if w_observing w then w\<lparr>w_timeout := Some (t + 200)\<rparr> else w)"

definition fireTimeout :: "nat \<Rightarrow> dom_wait \<Rightarrow> dom_wait" where
  "fireTimeout t w =
     (case w_timeout w of
        None \<Rightarrow> w
      | Some due \<Rightarrow> if due \<le> t then done_cb due w else w)"

datatype dom_event = AnimationFrame | Mutation

definition dw_step :: "dom_wait \<Rightarrow> nat \<Rightarrow> dom_event \<Rightarrow> dom_wait" where
  "dw_step w t ev = (case ev of AnimationFrame \<Rightarrow> onAnimationFrame t w | Mutation \<Rightarrow> onMutation t w)"

fun dw_run :: "dom_wait \<Rightarrow> (nat \<times> dom_event) list \<Rightarrow> dom_wait" where
  "dw_run w [] = w"
| "dw_run w ((t, ev) # evs) = dw_run (dw_step (fireTimeout t w) t ev) evs"

text \<open>The promise has resolved by time \<open>t\<close>.\<close>

definition resolvedBy :: "nat \<Rightarrow> dom_wait \<Rightarrow> bool" where
  "resolvedBy t w = (case w_resolvedAt (fireTimeout t w) of None \<Rightarrow> False | Some r \<Rightarrow> r \<le> t)"

text \<open>A frame 16 ms after the call, then a mutation every 150 ms.\<close>

definition ex_mutations :: "(nat \<times> dom_event) list" where
  "ex_mutations = [(16, AnimationFrame), (150, Mutation), (300, Mutation), (450, Mutation),
     (600, Mutation), (750, Mutation), (900, Mutation)]"

text \<open>Mutation times that each come before the silence timer, due at \<open>d\<close>, fires.\<close>

fun gaps_ok :: "nat \<Rightarrow> nat list \<Rightarrow> bool" where
  "gaps_ok d [] = True"
| "gaps_ok d (t # ts) = (t < d \<and> gaps_ok (t + 200) ts)"

section \<open>Network-idle wait (content.js, ActionRecorder.waitForNetworkIdle)\<close>

text \<open>
  A transport hook (\<^verbatim>\<open>window.fetch\<close>, \<^verbatim>\<open>XMLHttpRequest.prototype.open\<close>,
  \<^verbatim>\<open>XMLHttpRequest.prototype.send\<close>) is the browser's own function or the
  wrapper installed by the \<open>k\<close>-th call of \<^verbatim>\<open>waitForNetworkIdle\<close> around the
  function it found.
\<close>

datatype hook = Native | Wrapper nat hook

fun wrappers :: "hook \<Rightarrow> nat list" where
  "wrappers Native = []"
| "wrappers (Wrapper k orig) = k # wrappers orig"

datatype net_timer = IdleTimer nat | CeilingTimer nat

text \<open>
  The closure of one call, and the page: the three hooks, the calls made so far,
  the pending timers in creation order (id, due time, callback), the wrappers each
  fetch in flight will notify when it settles, and for each XMLHttpRequest the
  \<^verbatim>\<open>_monitored\<close> flag and the cleanup listeners every \<^verbatim>\<open>send\<close> so far has
  added (they are never removed).
\<close>

record net_call =
  n_pendingRequests :: int
  n_idleTimer :: "nat option"
  n_resolvedAt :: "nat option"
  n_originalFetch :: hook
  n_XHROpen :: hook
  n_XHRSend :: hook

record page =
  p_fetch :: hook
  p_xhrOpen :: hook
  p_xhrSend :: hook
  p_calls :: "net_call list"
  p_timers :: "(nat \<times> nat \<times> net_timer) list"
  p_nextTimer :: nat
  p_fetches :: "nat \<rightharpoonup> nat list"
  p_monitored :: "nat \<Rightarrow> bool"
  p_listeners :: "nat \<Rightarrow> nat list"

definition upd_call :: "nat \<Rightarrow> (net_call \<Rightarrow> net_call) \<Rightarrow> page \<Rightarrow> page" where
  "upd_call k f p =
     (if k < length (p_calls p) then p\<lparr>p_calls := (p_calls p)[k := f (p_calls p ! k)]\<rparr> else p)"

definition net_setTimeout :: "nat \<Rightarrow> net_timer \<Rightarrow> page \<Rightarrow> page" where
  "net_setTimeout due cb p =
     p\<lparr>p_timers := p_timers p @ [(p_nextTimer p, due, cb)], p_nextTimer := Suc (p_nextTimer p)\<rparr>"

definition net_clearTimeout :: "nat option \<Rightarrow> page \<Rightarrow> page" where
  "net_clearTimeout tid p =
     (case tid of
        None \<Rightarrow> p
      | Some i \<Rightarrow> p\<lparr>p_timers := filter (\<lambda>tm. fst tm \<noteq> i) (p_timers p)\<rparr>)"

definition resolve :: "nat \<Rightarrow> nat \<Rightarrow> page \<Rightarrow> page" where
  "resolve k t p =
     upd_call k (\<lambda>c. c\<lparr>n_resolvedAt := (case n_resolvedAt c of None \<Rightarrow> Some t | Some t0 \<Rightarrow> Some t0)\<rparr>) p"

definition checkIdle :: "nat \<Rightarrow> nat \<Rightarrow> page \<Rightarrow> page" where
  "checkIdle k now p =
     (if k < length (p_calls p) \<and> n_pendingRequests (p_calls p ! k) = 0
      then let p1 = net_clearTimeout (n_idleTimer (p_calls p ! k)) p;
               tid = p_nextTimer p1;
               p2 = net_setTimeout (now + 300) (IdleTimer k) p1
           in upd_call k (\<lambda>c. c\<lparr>n_idleTimer := Some tid\<rparr>) p2
      else p)"

definition waitForNetworkIdle :: "nat \<Rightarrow> nat \<Rightarrow> page \<Rightarrow> page" where
  "waitForNetworkIdle maxWaitTime now p =
     (let k = length (p_calls p);
          c = \<lparr>n_pendingRequests = 0, n_idleTimer = None, n_resolvedAt = None,
               n_originalFetch = p_fetch p, n_XHROpen = p_xhrOpen p, n_XHRSend = p_xhrSend p\<rparr>;
          p1 = p\<lparr>p_calls := p_calls p @ [c],
                 p_fetch := Wrapper k (p_fetch p),
                 p_xhrOpen := Wrapper k (p_xhrOpen p),
                 p_xhrSend := Wrapper k (p_xhrSend p)\<rparr>;
          p2 = net_setTimeout (now + maxWaitTime) (CeilingTimer k) p1
      in checkIdle k now p2)"

text \<open>
  A timer callback: the idle timer only resolves; the ceiling timer restores the
  three hooks to what the call found and resolves.
\<close>

definition net_fire :: "nat \<times> nat \<times> net_timer \<Rightarrow> page \<Rightarrow> page" where
  "net_fire tm p =
     (case snd (snd tm) of
        IdleTimer k \<Rightarrow> resolve k (fst (snd tm)) p
      | CeilingTimer k \<Rightarrow>
          if k < length (p_calls p)
          then resolve k (fst (snd tm))
                 (p\<lparr>p_fetch := n_originalFetch (p_calls p ! k),
                    p_xhrOpen := n_XHROpen (p_calls p ! k),
                    p_xhrSend := n_XHRSend (p_calls p ! k)\<rparr>)
          else p)"

definition net_nextDue :: "nat \<Rightarrow> (nat \<times> nat \<times> net_timer) list \<Rightarrow> (nat \<times> nat \<times> net_timer) option" where
  "net_nextDue now ts =
     (case filter (\<lambda>tm. fst (snd tm) \<le> now) ts of
        [] \<Rightarrow> None
      | tm # rest \<Rightarrow>
          Some (fold (\<lambda>x best. if fst (snd x) < fst (snd best) then x else best) rest tm))"

lemma net_nextDue_mem: "net_nextDue now ts = Some tm \<Longrightarrow> tm \<in> set ts"
proof -
  have f: "fold (\<lambda>x best. if fst (snd x) < fst (snd best) then x else best) xs b \<in> set (b # xs)"
    for xs and b :: "nat \<times> nat \<times> net_timer"
    by (induction xs arbitrary: b) auto
  assume a: "net_nextDue now ts = Some tm"
  then obtain b rest where fl: "filter (\<lambda>tm. fst (snd tm) \<le> now) ts = b # rest"
    and tm: "tm = fold (\<lambda>x best. if fst (snd x) < fst (snd best) then x else best) rest b"
    by (auto simp: net_nextDue_def split: list.splits)
  from f [of rest b] tm have "tm \<in> set (filter (\<lambda>tm. fst (snd tm) \<le> now) ts)"
    unfolding fl by simp
  then show ?thesis by simp
qed

lemma p_timers_upd_call: "p_timers (upd_call k f p) = p_timers p"
  by (simp add: upd_call_def)

lemma p_timers_net_fire: "p_timers (net_fire tm p) = p_timers p"
  by (simp add: net_fire_def resolve_def p_timers_upd_call split: net_timer.splits)

function net_runTimers :: "nat \<Rightarrow> page \<Rightarrow> page" where
  "net_runTimers now p =
     (case net_nextDue now (p_timers p) of
        None \<Rightarrow> p
      | Some tm \<Rightarrow>
          net_runTimers now
            (net_fire tm (p\<lparr>p_timers := filter (\<lambda>x. fst x \<noteq> fst tm) (p_timers p)\<rparr>)))"
  by pat_completeness auto
termination
proof (relation "measure (\<lambda>(now, p). length (p_timers p))")
  show "wf (measure (\<lambda>(now, p). length (p_timers p)))" by simp
next
  fix now :: nat and p :: page and tm :: "nat \<times> nat \<times> net_timer"
  assume "net_nextDue now (p_timers p) = Some tm"
  then have "tm \<in> set (p_timers p)" by (rule net_nextDue_mem)
  then have "length (filter (\<lambda>x. fst x \<noteq> fst tm) (p_timers p)) < length (p_timers p)"
    by (intro length_filter_less [of tm]) auto
  then show "((now, net_fire tm (p\<lparr>p_timers := filter (\<lambda>x. fst x \<noteq> fst tm) (p_timers p)\<rparr>)), now, p)
      \<in> measure (\<lambda>(now, p). length (p_timers p))"
    by (simp add: p_timers_net_fire)
qed

declare net_runTimers.simps [simp del]

text \<open>
  Events in the page: a call of \<^verbatim>\<open>waitForNetworkIdle(maxWaitTime)\<close>, a fetch
  through \<^verbatim>\<open>window.fetch\<close> and its settling, and \<^verbatim>\<open>open\<close>, \<^verbatim>\<open>send\<close> and
  the final \<^verbatim>\<open>load\<close>, \<^verbatim>\<open>error\<close> or \<^verbatim>\<open>abort\<close> of an XMLHttpRequest. A
  call through a hook runs every wrapper on it, outermost first.
\<close>

datatype net_event =
    Invoke nat
  | FetchStart nat
  | FetchSettled nat
  | XhrOpen nat
  | XhrSend nat
  | XhrDone nat

definition incPending :: "nat \<Rightarrow> page \<Rightarrow> page" where
  "incPending k p = upd_call k (\<lambda>c. c\<lparr>n_pendingRequests := n_pendingRequests c + 1\<rparr>) p"

definition cleanup :: "nat \<Rightarrow> nat \<Rightarrow> page \<Rightarrow> page" where
  "cleanup now k p =
     checkIdle k now (upd_call k (\<lambda>c. c\<lparr>n_pendingRequests := n_pendingRequests c - 1\<rparr>) p)"

definition net_step :: "page \<Rightarrow> nat \<Rightarrow> net_event \<Rightarrow> page" where
  "net_step p now ev =
     (case ev of
        Invoke maxWaitTime \<Rightarrow> waitForNetworkIdle maxWaitTime now p
      | FetchStart rid \<Rightarrow>
          (fold incPending (wrappers (p_fetch p)) p)
            \<lparr>p_fetches := (p_fetches p)(rid \<mapsto> rev (wrappers (p_fetch p)))\<rparr>
      | FetchSettled rid \<Rightarrow>
          (case p_fetches p rid of
             None \<Rightarrow> p
           | Some ks \<Rightarrow> fold (cleanup now) ks (p\<lparr>p_fetches := (p_fetches p)(rid := None)\<rparr>))
      | XhrOpen rid \<Rightarrow>
          (if wrappers (p_xhrOpen p) \<noteq> [] then p\<lparr>p_monitored := (p_monitored p)(rid := True)\<rparr> else p)
      | XhrSend rid \<Rightarrow>
          (if p_monitored p rid
           then (fold incPending (wrappers (p_xhrSend p)) p)
                  \<lparr>p_listeners := (p_listeners p)(rid := p_listeners p rid @ wrappers (p_xhrSend p))\<rparr>
           else p)
      | XhrDone rid \<Rightarrow> fold (cleanup now) (p_listeners p rid) p)"

fun net_run :: "page \<Rightarrow> (nat \<times> net_event) list \<Rightarrow> page" where
  "net_run p [] = p"
| "net_run p ((t, ev) # evs) = net_run (net_step (net_runTimers t p) t ev) evs"

definition fresh_page :: page where
  "fresh_page = \<lparr>p_fetch = Native, p_xhrOpen = Native, p_xhrSend = Native, p_calls = [],
     p_timers = [], p_nextTimer = 0, p_fetches = Map.empty, p_monitored = (\<lambda>_. False),
     p_listeners = (\<lambda>_. [])\<rparr>"

definition resolvedAt :: "page \<Rightarrow> nat \<Rightarrow> nat option" where
  "resolvedAt p k = (if k < length (p_calls p) then n_resolvedAt (p_calls p ! k) else None)"

definition hooks :: "page \<Rightarrow> hook \<times> hook \<times> hook" where
  "hooks p = (p_fetch p, p_xhrOpen p, p_xhrSend p)"


section \<open>Concrete inputs\<close>

text \<open>A tab with an active session that holds one recorded click.\<close>

definition ex_click :: action where
  "ex_click =
     \<lparr>a_type = ''click'', a_element = Some \<lparr>i_selector = ''#go'', i_tag = ''BUTTON''\<rparr>,
      a_key = None, a_value = None, a_inputType = None, a_screenshot = None, a_id = None,
      a_timestamp = None\<rparr>"

definition ex_session :: session where
  "ex_session = session_addAction (RecordingSession 7 ''https://a.example/'' ''s-old'' 1000) ex_click ''a1'' 1500"

definition ex_manager :: manager where
  "ex_manager = \<lparr>sessions = [7 \<mapsto> ex_session], activeTab = Some 7, outbox = []\<rparr>"

definition ex_tab :: tab where
  "ex_tab = \<lparr>t_url = ''https://a.example/'', t_title = ''A''\<rparr>"

definition ex_env :: start_env where
  "ex_env = \<lparr>e_tab = Inr ex_tab, e_uuid = ''s-new'', e_now = 9000\<rparr>"

text \<open>The session a start on that tab creates, written out.\<close>

definition ex_new_session :: session where
  "ex_new_session =
     \<lparr>s_id = ''s-new'', s_tabId = 7, s_url = ''https://a.example/'', s_startTime = 9000,
      s_actions = [], s_isPaused = False, s_title = ''A''\<rparr>"

text \<open>
  An engine that accepts no selector syntax beyond the forms modelled. The examples
  below never reach it.
\<close>

definition ex_engine :: engine where
  "ex_engine = (\<lambda>doc text. Inl SyntaxError)"

text \<open>
  A page with a duplicated id: two \<^verbatim>\<open>div#item\<close> blocks, each holding one
  \<^verbatim>\<open>span.x\<close>, and a list whose items share a class; one item also carries
  transient classes.
\<close>

definition leaf :: "string \<Rightarrow> string \<Rightarrow> string list \<Rightarrow> node" where
  "leaf tg i cls = Elem tg i None None cls None None []"


text \<open>
  A form: a search field with an id, two amount fields without id whose only class
  is \<^verbatim>\<open>w-1/2\<close> and \<^verbatim>\<open>w-half\<close>, and an editable \<^verbatim>\<open>div\<close>, which has no
  \<^verbatim>\<open>value\<close> property.
\<close>

definition control :: "string \<Rightarrow> string list \<Rightarrow> string \<Rightarrow> node" where
  "control i cls nm = Elem ''INPUT'' i None None cls (Some nm) (Some ''text'') []"

definition ex_form :: node where
  "ex_form = Elem ''HTML'' [] None None [] None None
     [Elem ''HEAD'' [] None None [] None None [],
      Elem ''BODY'' [] None None [] None None
        [control ''q'' [] ''q'',
         control [] [''w-1/2''] ''amount'',
         control [] [''w-half''] ''rate'',
         leaf ''DIV'' [] [''note'']]]"

definition ex_recorder :: recorder where
  "ex_recorder = \<lparr>isRecording = True, isPaused = False, sessionId = Some ''s1'', lastAction = None,
     inputBuffer = Map.empty, attached = True, timers = [], nextTimer = 0, pending = [], sent = [],
     document = ex_form, elemValue = (\<lambda>el. if el = [1, 3] then None else Some []),
     browser = ex_engine\<rparr>"

definition ex_keypress :: action where
  "ex_keypress =
     \<lparr>a_type = ''keypress'', a_element = Some \<lparr>i_selector = ''#q'', i_tag = ''INPUT''\<rparr>,
      a_key = Some ''Enter'', a_value = None, a_inputType = None, a_screenshot = None,
      a_id = None, a_timestamp = None\<rparr>"

text \<open>Five edits within 400 ms that spell a word.\<close>

definition ex_burst :: "(nat \<times> string) list" where
  "ex_burst = [(0, ''h''), (100, ''he''), (200, ''hel''), (300, ''hell''), (400, ''hello'')]"

section \<open>Properties of masking\<close>

lemma startsWith_iff: "startsWith s p \<longleftrightarrow> (\<exists>r. s = p @ r)"
  by (induction s p rule: startsWith.induct) auto

lemma includes_iff: "includes_str s p \<longleftrightarrow> (\<exists>a b. s = a @ p @ b)"
proof (induction s)
  case Nil
  then show ?case by auto
next
  case (Cons c cs)
  show ?case
  proof
    assume "includes_str (c # cs) p"
    then consider "startsWith (c # cs) p" | "includes_str cs p" by auto
    then show "\<exists>a b. c # cs = a @ p @ b"
    proof cases
      case 1
      then obtain r where "c # cs = p @ r" using startsWith_iff by blast
      then have "c # cs = [] @ p @ r" by simp
      then show ?thesis by blast
    next
      case 2
      with Cons obtain a b where "cs = a @ p @ b" by blast
      then have "c # cs = (c # a) @ p @ b" by simp
      then show ?thesis by blast
    qed
  next
    assume "\<exists>a b. c # cs = a @ p @ b"
    then obtain a b where ab: "c # cs = a @ p @ b" by blast
    show "includes_str (c # cs) p"
    proof (cases a)
      case Nil
      with ab have "startsWith (c # cs) p" using startsWith_iff by auto
      then show ?thesis by simp
    next
      case (Cons x a')
      with ab have "cs = a' @ p @ b" by simp
      with Cons.IH have "includes_str cs p" by blast
      then show ?thesis by simp
    qed
  qed
qed

lemma repeat_star: "repeat ''*'' n = replicate n CHR ''*''"
  by (induction n) (auto simp: repeat_def)

lemma star_not_local: "\<not> isLocalChar CHR ''*''"
  by (simp add: isLocalChar_def lowerLetters_def upperLetters_def digitChars_def)

lemma emailMatchAt_star: "emailMatchAt (CHR ''*'' # s) = None"
  by (simp add: emailMatchAt_def greedy_def star_not_local)

lemma emailMatchAt_Nil: "emailMatchAt [] = None"
  by (simp add: emailMatchAt_def greedy_def)

lemma replaceEmails_stars: "replaceEmails (replicate n CHR ''*'') = replicate n CHR ''*''"
proof (induction n)
  case 0
  show ?case by (subst replaceEmails.simps) (simp add: emailMatchAt_Nil)
next
  case (Suc n)
  show ?case
    by (subst replaceEmails.simps) (simp add: emailMatchAt_star Suc)
qed

text \<open>
  The model of the pattern on the specification's example: the local part keeps its
  first character, the domain is kept, the rest of the text is untouched.
\<close>

lemma replaceEmails_example:
  "replaceEmails ''contact jane.doe@example.com please'' = ''contact j***@example.com please''"
  by code_simp

text \<open>
  Claim C6. A password-type field, or a field whose lower-cased name, id and class
  (concatenated) contain one of the sensitive keywords, has its value replaced by
  a run of mask characters of the value's length; a password field holding
  \<^verbatim>\<open>hunter2\<close> yields seven mask characters.
\<close>

theorem maskSensitiveData_sensitive:
  "(f_type e = Some ''password'' \<or>
      (\<exists>k \<in> set sensitiveFields. \<exists>a b.
          toLowerCase (str_of (f_name e) @ f_id e @ f_className e) = a @ k @ b)
    \<longrightarrow> maskSensitiveData v e = replicate (length v) CHR ''*'')
   \<and> (f_type e = Some ''password'' \<longrightarrow> maskSensitiveData ''hunter2'' e = ''*******'')"
proof -
  have "maskSensitiveData w e = replicate (length w) CHR ''*''"
    if "f_type e = Some ''password'' \<or>
        (\<exists>k \<in> set sensitiveFields. \<exists>a b.
          toLowerCase (str_of (f_name e) @ f_id e @ f_className e) = a @ k @ b)" for w
  proof -
    from that consider "f_type e = Some ''password''"
      | "\<exists>k \<in> set sensitiveFields. includes_str (fieldName e) k"
      unfolding fieldName_def includes_iff by blast
    then show ?thesis
      by cases (auto simp: maskSensitiveData_def repeat_star list_ex_iff)
  qed
  from this [of v] this [of "''hunter2''"] show ?thesis by simp
qed

theorem maskSensitiveData_sensitive_witness:
  "maskSensitiveData ''4111 1111''
     \<lparr>f_name = Some ''CreditCardNumber'', f_id = ''cc'', f_className = ''form-control'',
      f_type = Some ''text''\<rparr> = ''*********''
   \<and> maskSensitiveData ''hunter2''
     \<lparr>f_name = Some ''pw'', f_id = [], f_className = [], f_type = Some ''password''\<rparr>
     = ''*******''"
proof -
  let ?e = "\<lparr>f_name = Some ''CreditCardNumber'', f_id = ''cc'', f_className = ''form-control'',
      f_type = Some ''text''\<rparr>"
  let ?p = "\<lparr>f_name = Some ''pw'', f_id = [], f_className = [], f_type = Some ''password''\<rparr>"
  have low: "toLowerCase (str_of (f_name ?e) @ f_id ?e @ f_className ?e)
      = [] @ ''credit'' @ ''cardnumberccform-control''"
    by (simp add: toLowerCase_def toLowerCaseChar_def upperLetters_def lowerLetters_def str_of_def)
  have k: "''credit'' \<in> set sensitiveFields"
    by (simp add: sensitiveFields_def)
  have hyp: "f_type ?e = Some ''password'' \<or>
      (\<exists>k \<in> set sensitiveFields. \<exists>a b.
          toLowerCase (str_of (f_name ?e) @ f_id ?e @ f_className ?e) = a @ k @ b)"
    using low k by blast
  have "maskSensitiveData ''4111 1111'' ?e = replicate (length ''4111 1111'') CHR ''*''"
    using maskSensitiveData_sensitive [of ?e "''4111 1111''"] hyp by blast
  moreover have "maskSensitiveData ''hunter2'' ?p = ''*******''"
    using maskSensitiveData_sensitive [of ?p] by simp
  ultimately show ?thesis by simp
qed

text \<open>
  Claim C9. A value made of mask characters only is returned unchanged, whatever
  the field: a sensitive field rebuilds the same run, and on any other field the
  e-mail pattern finds nothing to replace.
\<close>

theorem maskSensitiveData_masked_unchanged:
  "set s \<subseteq> {CHR ''*''} \<Longrightarrow> maskSensitiveData s e = s"
proof -
  assume "set s \<subseteq> {CHR ''*''}"
  then have s: "s = replicate (length s) CHR ''*''"
    by (metis replicate_eqI subset_singletonD insert_iff empty_iff subsetD)
  show ?thesis
    unfolding maskSensitiveData_def repeat_star
    using s replaceEmails_stars [of "length s"] by auto
qed

theorem maskSensitiveData_masked_unchanged_witness:
  "maskSensitiveData ''****''
     \<lparr>f_name = Some ''comment'', f_id = ''c1'', f_className = ''wide'', f_type = Some ''text''\<rparr>
     = ''****''
   \<and> maskSensitiveData ''****''
     \<lparr>f_name = Some ''pw'', f_id = [], f_className = [], f_type = Some ''password''\<rparr>
     = ''****''"
proof -
  have h: "set ''****'' \<subseteq> {CHR ''*''}" by simp
  show ?thesis
    using maskSensitiveData_masked_unchanged [OF h] by simp
qed

section \<open>Properties of the saved-recordings list\<close>

lemma take_append_take: "take n (xs @ take n ys) = take n (xs @ ys)"
  by (simp add: min_def)

lemma saveRecording_allOk:
  "getSavedRecordings (saveRecording st r allOk) = take 50 (r # getSavedRecordings st)"
  by (auto simp: saveRecording_def allOk_def getSavedRecordings_def Let_def split: option.splits)

lemma saveRecording_failed:
  "\<not> getOk oc \<or> \<not> setOk oc \<Longrightarrow> saveRecording st r oc = st"
  by (auto simp: saveRecording_def Let_def)

lemma saveAll_list:
  "getSavedRecordings (saveAll st rs) = take 50 (rev rs @ getSavedRecordings st) \<or> rs = []"
proof (induction rs arbitrary: st)
  case Nil
  show ?case by simp
next
  case (Cons r rs)
  show ?case
  proof (cases "rs = []")
    case True
    then show ?thesis by (simp add: saveRecording_allOk)
  next
    case False
    with Cons [of "saveRecording st r allOk"]
    have "getSavedRecordings (saveAll st (r # rs))
        = take 50 (rev rs @ take 50 (r # getSavedRecordings st))"
      by (simp add: saveRecording_allOk)
    then show ?thesis
      by (simp only: take_append_take) simp
  qed
qed

text \<open>
  Claim C10. After any non-empty sequence of saves the stored list starts with the
  recording saved last and has at most 50 entries: it is the 50 most recent of the
  saved recordings, newest first, followed by what was stored before.
\<close>

theorem saveRecording_most_recent_first:
  "rs \<noteq> [] \<Longrightarrow>
     getSavedRecordings (saveAll st rs) = take 50 (rev rs @ getSavedRecordings st)
   \<and> hd (getSavedRecordings (saveAll st rs)) = last rs
   \<and> length (getSavedRecordings (saveAll st rs)) \<le> 50
   \<and> getSavedRecordings (saveRecording st r allOk) = take 50 (r # getSavedRecordings st)"
proof -
  assume ne: "rs \<noteq> []"
  with saveAll_list [of st rs]
  have l: "getSavedRecordings (saveAll st rs) = take 50 (rev rs @ getSavedRecordings st)"
    by simp
  from ne obtain ys where r: "rev rs = last rs # ys"
    by (cases rs rule: rev_cases) auto
  have "hd (take 50 ((last rs # ys) @ getSavedRecordings st)) = last rs"
    by simp
  then have "hd (take 50 (rev rs @ getSavedRecordings st)) = last rs"
    unfolding r .
  with l show ?thesis by (simp add: saveRecording_allOk)
qed

theorem saveRecording_most_recent_first_witness:
  "getSavedRecordings (saveAll \<lparr>recordings = None\<rparr> [1, 2, 3 :: nat]) = [3, 2, 1]
   \<and> hd (getSavedRecordings (saveAll \<lparr>recordings = None\<rparr> [1, 2, 3 :: nat])) = 3
   \<and> length (getSavedRecordings (saveAll \<lparr>recordings = None\<rparr> [1, 2, 3 :: nat])) \<le> 50"
proof -
  have h: "[1, 2, 3 :: nat] \<noteq> []" by simp
  show ?thesis
    using saveRecording_most_recent_first [OF h, of "\<lparr>recordings = None\<rparr>" 0]
    by (simp add: getSavedRecordings_def)
qed

section \<open>Properties of the session buffer\<close>

text \<open>
  Claim C5. Appending to a tab whose session is not in the Recording state (there
  is none, or it is paused) reports failure and changes nothing; in particular
  after \<^verbatim>\<open>pauseRecording\<close> and after \<^verbatim>\<open>stopRecording\<close> the append fails and
  the buffered actions are what they were. \<open>addAction\<close> is a total function: no
  input makes it raise.
\<close>

theorem addAction_rejected_unless_recording:
  "(\<not> inRecordingState m t \<longrightarrow>
      addAction m t act uuid now = (m, False)
      \<and> actionsOf (fst (addAction m t act uuid now)) t = actionsOf m t)
   \<and> snd (addAction (fst (pauseRecording m t)) t act uuid now) = False
   \<and> actionsOf (fst (addAction (fst (pauseRecording m t)) t act uuid now)) t = actionsOf m t
   \<and> addAction (fst (stopRecording m t now0)) t act uuid now = (fst (stopRecording m t now0), False)"
  by (auto simp: inRecordingState_def addAction_def pauseRecording_def stopRecording_def
      actionsOf_def split: option.splits)

theorem addAction_rejected_unless_recording_witness:
  "\<not> inRecordingState (fst (pauseRecording ex_manager 7)) 7
   \<and> snd (addAction (fst (pauseRecording ex_manager 7)) 7 ex_click ''a2'' 2000) = False
   \<and> length (actionsOf (fst (addAction (fst (pauseRecording ex_manager 7)) 7 ex_click ''a2'' 2000)) 7) = 1"
proof -
  have h: "\<not> inRecordingState (fst (pauseRecording ex_manager 7)) 7"
    by (simp add: inRecordingState_def pauseRecording_def ex_manager_def)
  have l: "length (actionsOf (fst (pauseRecording ex_manager 7)) 7) = 1"
    by (simp add: actionsOf_def pauseRecording_def ex_manager_def ex_session_def
        session_addAction_def RecordingSession_def)
  from addAction_rejected_unless_recording
         [of "fst (pauseRecording ex_manager 7)" 7 ex_click "''a2''" 2000 0] h l
  show ?thesis by simp
qed

text \<open>
  Whatever is registered for the tab, the first turn of a start whose tab lookup
  succeeds stores a session with the fresh id and no actions under the tab id. A
  start message that is not delivered leaves the tab with no session at all. In
  the page, by contrast, \<^verbatim>\<open>start\<close> on a recorder that is already recording
  returns at once.
\<close>

lemma startRecording_register_overwrites:
  "e_tab env = Inr tb \<Longrightarrow>
   sessions (fst (startRecording_register m t env)) t
     = Some \<lparr>s_id = e_uuid env, s_tabId = t, s_url = t_url tb, s_startTime = e_now env,
             s_actions = [], s_isPaused = False, s_title = t_title tb\<rparr>"
  by (simp add: startRecording_register_def RecordingSession_def Let_def)

lemma startRecording_settle_failed:
  "startRecording_settle m t s (Some err) = (m\<lparr>sessions := (sessions m)(t := None)\<rparr>, Inl err)"
  by (simp add: startRecording_settle_def)

lemma start_while_recording: "isRecording r \<Longrightarrow> start r sid = r"
  by (simp add: start_def)

text \<open>
  Claim C2 fails on the code. Tab 7 has an active session, id \<^verbatim>\<open>s-old\<close>, that
  holds one recorded click. A second start for tab 7 does not fail: its first turn
  puts a new session, id \<^verbatim>\<open>s-new\<close> and no actions, in the place of the active
  one, and once the start message is answered the promise resolves with the new
  session. The active session and its click are gone from the registry.
\<close>

theorem startRecording_drops_active_session:
  "map_option s_id (sessions ex_manager 7) = Some ''s-old''
   \<and> map_option s_actions (sessions ex_manager 7)
       = Some [ex_click\<lparr>a_id := Some ''a1'', a_timestamp := Some 1500\<rparr>]
   \<and> startRecording_register ex_manager 7 ex_env
       = (\<lparr>sessions = [7 \<mapsto> ex_new_session], activeTab = Some 7, outbox = []\<rparr>,
          Inr ex_new_session)
   \<and> startRecording_settle
         (startRecording_send (fst (startRecording_register ex_manager 7 ex_env)) 7 ex_new_session)
         7 ex_new_session None
       = (\<lparr>sessions = [7 \<mapsto> ex_new_session], activeTab = Some 7,
            outbox = [(7, StartRecording ''s-new'')]\<rparr>,
          Inr ex_new_session)
   \<and> s_id ex_new_session = ''s-new'' \<and> s_actions ex_new_session = []"
  by (simp add: ex_manager_def ex_session_def ex_env_def ex_tab_def ex_new_session_def
      startRecording_register_def startRecording_send_def startRecording_settle_def
      RecordingSession_def session_addAction_def ex_click_def Let_def)

section \<open>Properties of the recorder\<close>

lemma nextDue_single: "nextDue now [(i, d, el)] = (if d \<le> now then Some (i, d, el) else None)"
  by (simp add: nextDue_def dueTime_def)

lemma armed_timers:
  "armed r el d \<Longrightarrow> \<exists>i. timers r = [(i, d, el)] \<and> inputBuffer r el = Some i"
  by (auto simp: armed_def split: option.splits)

lemma runTimers_not_due: "armed r el d \<Longrightarrow> t < d \<Longrightarrow> runTimers t r = r"
  by (subst runTimers.simps) (auto dest!: armed_timers simp: nextDue_single)

lemma runTimers_empty: "timers r = [] \<Longrightarrow> runTimers t r = r"
  by (subst runTimers.simps) (auto simp: nextDue_def)

lemma step_input_armed:
  assumes "armed r el d \<or> (listening r \<and> \<not> shouldIgnoreElement (document r) el element \<and> timers r = [])"
    and "node_at (document r) el = Some element"
  shows "armed (step r t (InputEv el v)) el (t + 500)
     \<and> pending (step r t (InputEv el v)) = pending r
     \<and> sent (step r t (InputEv el v)) = sent r
     \<and> elemValue (step r t (InputEv el v)) el = v
     \<and> document (step r t (InputEv el v)) = document r
     \<and> browser (step r t (InputEv el v)) = browser r"
  using assms
  by (auto simp: armed_def step_def listening_def userTyped_def handleInput_def Let_def
      clearTimeout_def split: option.splits)

lemma burst_armed:
  "armed r el d \<Longrightarrow> burst_ok ((t0, v0) # tvs) \<Longrightarrow> t0 + 500 = d \<Longrightarrow>
   elemValue r el = Some v0 \<Longrightarrow>
   armed (run r (inputEvents el tvs)) el (fst (last ((t0, v0) # tvs)) + 500)
   \<and> pending (run r (inputEvents el tvs)) = pending r
   \<and> sent (run r (inputEvents el tvs)) = sent r
   \<and> elemValue (run r (inputEvents el tvs)) el = Some (snd (last ((t0, v0) # tvs)))
   \<and> document (run r (inputEvents el tvs)) = document r
   \<and> browser (run r (inputEvents el tvs)) = browser r"
proof (induction tvs arbitrary: r t0 v0 d)
  case Nil
  then show ?case by (simp add: inputEvents_def)
next
  case (Cons tv tvs)
  obtain t v where tv: "tv = (t, v)" by (cases tv)
  from Cons.prems tv have t: "t < d" and ok: "burst_ok ((t, v) # tvs)" by auto
  let ?r1 = "step (runTimers t r) t (InputEv el (Some v))"
  from Cons.prems(1) t have rt: "runTimers t r = r" by (rule runTimers_not_due)
  from Cons.prems(1) obtain element where el: "node_at (document r) el = Some element"
    by (auto simp: armed_def split: option.splits)
  from step_input_armed [of r el d element t "Some v"] Cons.prems(1) el
  have s: "armed ?r1 el (t + 500)" "pending ?r1 = pending r" "sent ?r1 = sent r"
    "elemValue ?r1 el = Some v" "document ?r1 = document r" "browser ?r1 = browser r"
    unfolding rt by auto
  from Cons.IH [OF s(1) ok refl s(4)] s tv
  show ?case by (simp add: inputEvents_def)
qed

text \<open>
  When the one pending timer is due: if the element's info can be derived and the
  element has a value, the callback hands one action to \<^verbatim>\<open>recordAction\<close>; if
  deriving the info raises, or the element has no value, it hands over nothing.
\<close>

lemma runTimers_due:
  assumes "armed r el d" "d \<le> T" "node_at (document r) el = Some element"
    and "getElementInfo (browser r) (document r) el element = Inr info"
    and "elemValue r el = Some v"
  shows "pending (runTimers T r)
      = pending r @
        [\<lparr>a_type = ''input'', a_element = Some info, a_key = None,
          a_value = Some (maskSensitiveData v (field_of element)),
          a_inputType = Some (case e_type element of
                                None \<Rightarrow> ''text''
                              | Some ty \<Rightarrow> if ty = [] then ''text'' else ty),
          a_screenshot = None, a_id = None, a_timestamp = None\<rparr>]
     \<and> timers (runTimers T r) = [] \<and> sent (runTimers T r) = sent r"
proof -
  from assms(1) obtain i where i: "timers r = [(i, d, el)]" by (auto dest: armed_timers)
  let ?r1 = "inputTimerFired (r\<lparr>timers := filter (\<lambda>x. fst x \<noteq> fst (i, d, el)) (timers r)\<rparr>) el"
  have r1: "runTimers T r = runTimers T ?r1"
    by (subst runTimers.simps) (simp add: i nextDue_single assms(2))
  have t1: "timers ?r1 = []" by (simp add: timers_inputTimerFired i)
  have "runTimers T ?r1 = ?r1" using t1 by (rule runTimers_empty)
  with r1 have e: "runTimers T r = ?r1" by simp
  show ?thesis
    unfolding e using assms(3-5) i
    by (simp add: inputTimerFired_def recordAction_def new_action_def Let_def)
qed

lemma runTimers_due_raises:
  assumes "armed r el d" "d \<le> T" "node_at (document r) el = Some element"
    and "getElementInfo (browser r) (document r) el element = Inl err \<or> elemValue r el = None"
  shows "pending (runTimers T r) = pending r
     \<and> timers (runTimers T r) = [] \<and> sent (runTimers T r) = sent r"
proof -
  from assms(1) obtain i where i: "timers r = [(i, d, el)]" by (auto dest: armed_timers)
  let ?r1 = "inputTimerFired (r\<lparr>timers := filter (\<lambda>x. fst x \<noteq> fst (i, d, el)) (timers r)\<rparr>) el"
  have r1: "runTimers T r = runTimers T ?r1"
    by (subst runTimers.simps) (simp add: i nextDue_single assms(2))
  have t1: "timers ?r1 = []" by (simp add: timers_inputTimerFired i)
  have "runTimers T ?r1 = ?r1" using t1 by (rule runTimers_empty)
  with r1 have e: "runTimers T r = ?r1" by simp
  show ?thesis
    unfolding e using assms(3,4) i
    by (auto simp: inputTimerFired_def split: sum.splits option.splits)
qed

text \<open>
  The debounce where the callback completes. The recorder is listening, no timer
  is pending, and the element is one the recorder does not ignore, whose info can
  be derived. A burst of edits of the element, each less than 500 ms after the one
  before, hands nothing to \<^verbatim>\<open>recordAction\<close> while it lasts; once 500 ms have
  passed after the last edit, exactly one action has been handed over: the
  \<^verbatim>\<open>input\<close> action with the value the last edit left in the element, masked as
  every captured value is.
\<close>

lemma input_burst_one_action:
  assumes "listening r" and "node_at (document r) el = Some element"
    and "\<not> shouldIgnoreElement (document r) el element" and "timers r = []"
    and "burst_ok ((t0, v0) # tvs)"
    and "fst (last ((t0, v0) # tvs)) + 500 \<le> T"
    and "getElementInfo (browser r) (document r) el element = Inr info"
  shows "pending (run r (inputEvents el ((t0, v0) # tvs))) = pending r
     \<and> pending (runTimers T (run r (inputEvents el ((t0, v0) # tvs))))
         = pending r @
           [\<lparr>a_type = ''input'', a_element = Some info, a_key = None,
             a_value = Some (maskSensitiveData (snd (last ((t0, v0) # tvs))) (field_of element)),
             a_inputType = Some (case e_type element of
                                   None \<Rightarrow> ''text''
                                 | Some ty \<Rightarrow> if ty = [] then ''text'' else ty),
             a_screenshot = None, a_id = None, a_timestamp = None\<rparr>]
     \<and> timers (runTimers T (run r (inputEvents el ((t0, v0) # tvs)))) = []"
proof -
  let ?r1 = "step (runTimers t0 r) t0 (InputEv el (Some v0))"
  have rt: "runTimers t0 r = r" using assms(4) by (rule runTimers_empty)
  from step_input_armed [of r el 0 element t0 "Some v0"] assms(1-4)
  have s: "armed ?r1 el (t0 + 500)" "pending ?r1 = pending r"
    "elemValue ?r1 el = Some v0" "document ?r1 = document r" "browser ?r1 = browser r"
    unfolding rt by auto
  let ?r2 = "run ?r1 (inputEvents el tvs)"
  have run: "run r (inputEvents el ((t0, v0) # tvs)) = ?r2"
    by (simp add: inputEvents_def)
  from burst_armed [OF s(1) assms(5) refl s(3)]
  have b: "armed ?r2 el (fst (last ((t0, v0) # tvs)) + 500)" "pending ?r2 = pending ?r1"
    "elemValue ?r2 el = Some (snd (last ((t0, v0) # tvs)))"
    "document ?r2 = document ?r1" "browser ?r2 = browser ?r1"
    by auto
  have n2: "node_at (document ?r2) el = Some element"
    and i2: "getElementInfo (browser ?r2) (document ?r2) el element = Inr info"
    using b(4,5) s(4,5) assms(2,7) by simp_all
  from runTimers_due [OF b(1) assms(6) n2 i2 b(3)] b(2) s(2)
  show ?thesis unfolding run by simp
qed

text \<open>
  The same burst on an element for which \<^verbatim>\<open>getElementInfo\<close> raises, or of edits
  on an element without a value: the timer fires and nothing is recorded.
\<close>

lemma input_burst_lost_when_info_raises:
  assumes "listening r" and "node_at (document r) el = Some element"
    and "\<not> shouldIgnoreElement (document r) el element" and "timers r = []"
    and "burst_ok ((t0, v0) # tvs)"
    and "fst (last ((t0, v0) # tvs)) + 500 \<le> T"
    and "getElementInfo (browser r) (document r) el element = Inl err"
  shows "pending (runTimers T (run r (inputEvents el ((t0, v0) # tvs)))) = pending r
     \<and> sent (runTimers T (run r (inputEvents el ((t0, v0) # tvs)))) = sent r
     \<and> timers (runTimers T (run r (inputEvents el ((t0, v0) # tvs)))) = []"
proof -
  let ?r1 = "step (runTimers t0 r) t0 (InputEv el (Some v0))"
  have rt: "runTimers t0 r = r" using assms(4) by (rule runTimers_empty)
  from step_input_armed [of r el 0 element t0 "Some v0"] assms(1-4)
  have s: "armed ?r1 el (t0 + 500)" "pending ?r1 = pending r" "sent ?r1 = sent r"
    "elemValue ?r1 el = Some v0" "document ?r1 = document r" "browser ?r1 = browser r"
    unfolding rt by auto
  let ?r2 = "run ?r1 (inputEvents el tvs)"
  have run: "run r (inputEvents el ((t0, v0) # tvs)) = ?r2"
    by (simp add: inputEvents_def)
  from burst_armed [OF s(1) assms(5) refl s(4)]
  have b: "armed ?r2 el (fst (last ((t0, v0) # tvs)) + 500)" "pending ?r2 = pending ?r1"
    "sent ?r2 = sent ?r1" "document ?r2 = document ?r1" "browser ?r2 = browser ?r1"
    by auto
  have n2: "node_at (document ?r2) el = Some element"
    and i2: "getElementInfo (browser ?r2) (document ?r2) el element = Inl err
        \<or> elemValue ?r2 el = None"
    using b(4,5) s(5,6) assms(2,7) by simp_all
  from runTimers_due_raises [OF b(1) assms(6) n2 i2] b(2,3) s(2,3)
  show ?thesis unfolding run by simp
qed

text \<open>
  Claim C7 fails on the code. The recorder is listening on the form and no timer
  is pending. Five edits within 400 ms spell \<^verbatim>\<open>hello\<close>.
  \<^item> In the field whose only class is \<^verbatim>\<open>w-1/2\<close> (no id, test id or label): when
    the timer fires, \<^verbatim>\<open>getSelector\<close> passes \<^verbatim>\<open>input.w-1/2\<close> to
    \<^verbatim>\<open>document.querySelectorAll\<close>, which raises; no action is recorded.
  \<^item> In the editable \<^verbatim>\<open>div\<close>, which has no value: \<^verbatim>\<open>maskSensitiveData\<close>
    raises; no action is recorded.
  \<^item> In the field with class \<^verbatim>\<open>w-half\<close> the same edits give the one action the
    claim describes.
\<close>

theorem input_burst_lost_on_unparsable_class:
  "pending (runTimers 1000 (run ex_recorder (inputEvents [1, 1] ex_burst))) = []
   \<and> sent (runTimers 1000 (run ex_recorder (inputEvents [1, 1] ex_burst))) = []
   \<and> timers (runTimers 1000 (run ex_recorder (inputEvents [1, 1] ex_burst))) = []
   \<and> pending (runTimers 1000 (run ex_recorder
        [(0, InputEv [1, 3] None), (100, InputEv [1, 3] None), (200, InputEv [1, 3] None),
         (300, InputEv [1, 3] None), (400, InputEv [1, 3] None)])) = []
   \<and> pending (runTimers 1000 (run ex_recorder (inputEvents [1, 2] ex_burst)))
       = [\<lparr>a_type = ''input'',
           a_element = Some \<lparr>i_selector = ''input.w-half'', i_tag = ''INPUT''\<rparr>,
           a_key = None, a_value = Some ''hello'', a_inputType = Some ''text'',
           a_screenshot = None, a_id = None, a_timestamp = None\<rparr>]"
  by code_simp

text \<open>
  The handlers build actions without a timestamp, and nothing in the page adds one:
  the property holds along every run.
\<close>

lemma no_timestamps_inputTimerFired:
  "no_timestamps r \<Longrightarrow> no_timestamps (inputTimerFired r el)"
  by (auto simp: no_timestamps_def inputTimerFired_def recordAction_def new_action_def Let_def
      split: option.splits sum.splits)

lemma no_timestamps_runTimers: "no_timestamps r \<Longrightarrow> no_timestamps (runTimers now r)"
proof (induction now r rule: runTimers.induct)
  case (1 now r)
  show ?case
  proof (cases "nextDue now (timers r)")
    case None
    with 1 show ?thesis by (subst runTimers.simps) simp
  next
    case (Some tm)
    from 1(2) have "no_timestamps (r\<lparr>timers := filter (\<lambda>x. fst x \<noteq> fst tm) (timers r)\<rparr>)"
      by (simp add: no_timestamps_def)
    then have "no_timestamps (inputTimerFired (r\<lparr>timers := filter (\<lambda>x. fst x \<noteq> fst tm) (timers r)\<rparr>)
        (snd (snd tm)))"
      by (rule no_timestamps_inputTimerFired)
    from 1(1) [OF Some this] Some show ?thesis by (subst runTimers.simps) simp
  qed
qed

lemma no_timestamps_step: "no_timestamps r \<Longrightarrow> no_timestamps (step r now ev)"
proof (cases ev)
  case (InputEv el v)
  assume "no_timestamps r"
  then show ?thesis
    by (auto simp: InputEv step_def userTyped_def handleInput_def clearTimeout_def Let_def
        no_timestamps_def split: option.splits)
next
  case (KeydownEv key target)
  assume "no_timestamps r"
  then show ?thesis
    by (auto simp: KeydownEv step_def handleKeydown_def recordAction_def new_action_def Let_def
        no_timestamps_def split: option.splits sum.splits)
next
  case (Finished k shot)
  assume a: "no_timestamps r"
  show ?thesis
  proof (cases "k < length (pending r)")
    case True
    with a have "a_timestamp (pending r ! k) = None"
      by (simp add: no_timestamps_def list_all_length)
    moreover from a have "list_all (\<lambda>a. a_timestamp a = None) (take k (pending r) @ drop (Suc k) (pending r))"
      by (auto simp: no_timestamps_def list_all_iff dest: in_set_takeD in_set_dropD)
    ultimately show ?thesis using True
      by (simp add: Finished step_def recordAction_finish_def Let_def no_timestamps_def)
  next
    case False
    with a show ?thesis by (simp add: Finished step_def recordAction_finish_def)
  qed
next
  case (Control msg)
  assume "no_timestamps r"
  then show ?thesis
    by (cases msg) (auto simp: Control step_def start_def stop_def pause_def resume_def no_timestamps_def)
qed

lemma no_timestamps_run: "no_timestamps r \<Longrightarrow> no_timestamps (run r evs)"
proof (induction evs arbitrary: r)
  case Nil
  then show ?case by simp
next
  case (Cons e evs)
  obtain t ev where e: "e = (t, ev)" by (cases e)
  from Cons.prems have "no_timestamps (step (runTimers t r) t ev)"
    by (intro no_timestamps_step no_timestamps_runTimers)
  from Cons.IH [OF this] e show ?case by simp
qed

lemma never_duplicate:
  "no_timestamps r \<Longrightarrow> 100 \<le> now \<Longrightarrow> \<not> isDuplicateAction (run r evs) act now"
proof -
  assume "no_timestamps r" and n: "100 \<le> now"
  then have "no_timestamps (run r evs)" by (intro no_timestamps_run)
  with n show ?thesis
    by (auto simp: no_timestamps_def isDuplicateAction_def Let_def split: option.splits)
qed

text \<open>
  With a last action that carries no timestamp, the time difference is the clock
  reading itself, so from 100 ms after the epoch on nothing is a duplicate.
\<close>

lemma isDuplicateAction_no_timestamp:
  "lastAction r = Some la \<Longrightarrow> a_timestamp la = None \<Longrightarrow> 100 \<le> now \<Longrightarrow>
   \<not> isDuplicateAction r act now"
  by (simp add: isDuplicateAction_def Let_def)

lemma ex_form_q: "node_at ex_form [Suc 0, 0] = Some (control ''q'' [] ''q'')"
  by (simp add: ex_form_def)

lemma ex_form_q_info:
  "getElementInfo eng ex_form [Suc 0, 0] (control ''q'' [] ''q'')
     = Inr \<lparr>i_selector = ''#q'', i_tag = ''INPUT''\<rparr>"
  by (simp add: getElementInfo_def getSelector_def control_def render_def render_compound_def)

text \<open>
  Claim C4 fails on the code. \<^verbatim>\<open>isDuplicateAction\<close> compares the clock with
  \<^verbatim>\<open>this.lastAction.timestamp\<close>, but no handler puts a timestamp on the action it
  builds. An Enter key goes down on a field; its action is recorded 200 ms later;
  50 ms after that a second Enter goes down on the same field. Both are sent.
\<close>

theorem keypress_duplicate_not_suppressed:
  "sent (run ex_recorder
      [(1700000000000, KeydownEv ''Enter'' [1, 0]), (1700000000200, Finished 0 None),
       (1700000000250, KeydownEv ''Enter'' [1, 0]), (1700000000450, Finished 0 None)])
     = [ex_keypress, ex_keypress]"
  by (simp add: ex_recorder_def runTimers_empty step_def listening_def handleKeydown_def
        isDuplicateAction_def recordAction_def recordAction_finish_def Let_def ex_keypress_def
        new_action_def ex_form_q ex_form_q_info del: node_at.simps)

section \<open>Properties of the readiness waits\<close>

text \<open>
  While the observer is connected and nothing has resolved, mutations that each
  come before the silence timer is due keep postponing it; no other timer is left
  to end the wait.
\<close>

lemma mutations_postpone:
  "w_observing w \<Longrightarrow> w_timeout w = Some d \<Longrightarrow> w_resolvedAt w = None \<Longrightarrow> gaps_ok d ts \<Longrightarrow>
   (let w' = dw_run w (map (\<lambda>t. (t, Mutation)) ts) in
     w_observing w' \<and> w_resolvedAt w' = None
     \<and> w_timeout w' = Some (last (d # map (\<lambda>t. t + 200) ts)))"
proof (induction ts arbitrary: w d)
  case Nil
  then show ?case by simp
next
  case (Cons t ts)
  let ?w1 = "dw_step (fireTimeout t w) t Mutation"
  from Cons.prems
  have 1: "w_observing ?w1" "w_timeout ?w1 = Some (t + 200)" "w_resolvedAt ?w1 = None"
    by (auto simp: dw_step_def fireTimeout_def onMutation_def)
  from Cons.prems have "gaps_ok (t + 200) ts" by simp
  from Cons.IH [OF 1 this] show ?case by (simp add: Let_def)
qed

text \<open>
  Claim C1 fails on the code. The animation-frame callback clears the 1000 ms
  timer, so with a frame after 16 ms and a mutation every 150 ms the promise is
  still unresolved 1000 ms after the call; it resolves 200 ms after the last
  mutation, at 1100 ms.
\<close>

theorem domStability_ceiling_cancelled:
  "\<not> resolvedBy 1000 (dw_run (waitForDOMStability 0) ex_mutations)
   \<and> w_resolvedAt (fireTimeout 1100 (dw_run (waitForDOMStability 0) ex_mutations)) = Some 1100"
  by (simp add: resolvedBy_def ex_mutations_def waitForDOMStability_def dw_step_def fireTimeout_def
      onAnimationFrame_def onMutation_def done_cb_def)

lemmas net_defs = net_step_def waitForNetworkIdle_def checkIdle_def net_setTimeout_def
  net_clearTimeout_def upd_call_def resolve_def net_fire_def net_nextDue_def fresh_page_def
  resolvedAt_def hooks_def Let_def

text \<open>
  The idle timer leaves the hooks as they are; only the ceiling timer writes them,
  and it writes what its own call saved.
\<close>

lemma idle_timer_keeps_hooks: "hooks (net_fire (i, due, IdleTimer k) p) = hooks p"
  by (simp add: net_fire_def resolve_def upd_call_def hooks_def)

lemma ceiling_timer_restores_saved:
  "k < length (p_calls p) \<Longrightarrow>
   hooks (net_fire (i, due, CeilingTimer k) p)
     = (n_originalFetch (p_calls p ! k), n_XHROpen (p_calls p ! k), n_XHRSend (p_calls p ! k))"
  by (simp add: net_fire_def resolve_def upd_call_def hooks_def)

text \<open>
  Claim C3 fails on the code. A call with a ceiling of 1000 ms on a page with no
  traffic resolves through the idle timer after 300 ms, and at that moment the
  three hooks are still the call's wrappers. With a second call 500 ms after the
  first, the second call saves the first call's wrappers and restores them when its
  own ceiling fires, after the first call has put the browser's functions back: the
  first call's wrappers stay installed.
\<close>

theorem networkIdle_resolves_with_hooks_installed:
  "resolvedAt (net_runTimers 300 (net_run fresh_page [(0, Invoke 1000)])) 0 = Some 300
   \<and> hooks (net_runTimers 300 (net_run fresh_page [(0, Invoke 1000)]))
       = (Wrapper 0 Native, Wrapper 0 Native, Wrapper 0 Native)
   \<and> hooks (net_runTimers 5000 (net_run fresh_page [(0, Invoke 1000), (500, Invoke 1000)]))
       = (Wrapper 0 Native, Wrapper 0 Native, Wrapper 0 Native)"
  by (simp add: net_defs net_runTimers.simps)

section \<open>Properties of the locator deriver\<close>



lemma paths_sets:
  "set (all_paths n) = {p. node_at n p \<noteq> None}"
  "set (child_paths k cs) = {(k + i) # q | i q. i < length cs \<and> node_at (cs ! i) q \<noteq> None}"
proof (induction n and k cs rule: all_paths_child_paths.induct)
  case (1 tg i t a cl nm ty cs)
  show ?case
  proof (rule set_eqI)
    fix p
    show "p \<in> set (all_paths (Elem tg i t a cl nm ty cs)) \<longleftrightarrow> p \<in> {p. node_at (Elem tg i t a cl nm ty cs) p \<noteq> None}"
    proof (cases p)
      case Nil
      then show ?thesis by simp
    next
      case (Cons j q)
      then show ?thesis using 1 by auto
    qed
  qed
next
  case (2 k)
  show ?case by simp
next
  case (3 k c cs)
  show ?case
  proof (rule set_eqI)
    fix p
    have "p \<in> set (child_paths k (c # cs)) \<longleftrightarrow>
        (\<exists>q. p = k # q \<and> node_at c q \<noteq> None)
        \<or> (\<exists>i q. p = (Suc k + i) # q \<and> i < length cs \<and> node_at (cs ! i) q \<noteq> None)"
      using 3 by auto
    also have "\<dots> \<longleftrightarrow> (\<exists>i q. p = (k + i) # q \<and> i < length (c # cs) \<and> node_at ((c # cs) ! i) q \<noteq> None)"
    proof
      assume "(\<exists>q. p = k # q \<and> node_at c q \<noteq> None)
        \<or> (\<exists>i q. p = (Suc k + i) # q \<and> i < length cs \<and> node_at (cs ! i) q \<noteq> None)"
      then show "\<exists>i q. p = (k + i) # q \<and> i < length (c # cs) \<and> node_at ((c # cs) ! i) q \<noteq> None"
      proof
        assume "\<exists>q. p = k # q \<and> node_at c q \<noteq> None"
        then obtain q where "p = (k + 0) # q \<and> 0 < length (c # cs) \<and> node_at ((c # cs) ! 0) q \<noteq> None"
          by auto
        then show ?thesis by blast
      next
        assume "\<exists>i q. p = (Suc k + i) # q \<and> i < length cs \<and> node_at (cs ! i) q \<noteq> None"
        then obtain i q where "p = (k + Suc i) # q \<and> Suc i < length (c # cs)
            \<and> node_at ((c # cs) ! Suc i) q \<noteq> None"
          by auto
        then show ?thesis by blast
      qed
    next
      assume "\<exists>i q. p = (k + i) # q \<and> i < length (c # cs) \<and> node_at ((c # cs) ! i) q \<noteq> None"
      then obtain i q where iq: "p = (k + i) # q" "i < length (c # cs)" "node_at ((c # cs) ! i) q \<noteq> None"
        by blast
      show "(\<exists>q. p = k # q \<and> node_at c q \<noteq> None)
        \<or> (\<exists>i q. p = (Suc k + i) # q \<and> i < length cs \<and> node_at (cs ! i) q \<noteq> None)"
      proof (cases i)
        case 0
        with iq show ?thesis by auto
      next
        case (Suc j)
        with iq have "p = (Suc k + j) # q \<and> j < length cs \<and> node_at (cs ! j) q \<noteq> None" by auto
        then show ?thesis by blast
      qed
    qed
    finally show "p \<in> set (child_paths k (c # cs)) \<longleftrightarrow>
        p \<in> {(k + i) # q | i q. i < length (c # cs) \<and> node_at ((c # cs) ! i) q \<noteq> None}"
      by simp
  qed
qed


















text \<open>
  An element matches its own class selector, so a class selector that is read as
  built and matches one element matches the element it was derived from.
\<close>

lemma class_selector_self:
  assumes "node_at doc p = Some element"
    and "length (matching doc (classSelector element)) = 1"
  shows "matching doc (classSelector element) = [p]"
proof -
  have m: "matches doc p (classSelector element)"
    using assms(1)
    by (simp add: matches_def classSelector_def matches_compound_def stableClasses_def list_all_iff)
  have "p \<in> set (all_paths doc)" using assms(1) by (simp add: paths_sets)
  with m have "p \<in> set (matching doc (classSelector element))"
    by (simp add: matching_def)
  with assms(2) show ?thesis
    by (cases "matching doc (classSelector element)") auto
qed


text \<open>
  Where the engine rejects the class selector, \<^verbatim>\<open>getSelector\<close> raises: neither
  selector is returned.
\<close>

lemma getSelector_raises:
  assumes "elem_id element = []" and "\<not> truthy (testid element)" and "\<not> truthy (ariaLabel element)"
    and "join ''.'' (stableClasses element) \<noteq> []"
    and "querySelectorAll eng doc (classSelector element) = Inl err"
  shows "getSelector eng doc p element = Inl err"
  using assms by (simp add: getSelector_def)

lemma getSelector_raises_example:
  "getSelector ex_engine ex_form [1, 1] (control [] [''w-1/2''] ''amount'') = Inl SyntaxError
   \<and> render (classSelector (control [] [''w-1/2''] ''amount'')) = ''input.w-1/2''"
  by code_simp




end
